theory Spec2Isabelle
  imports Main
begin

section \<open>Data model\<close>

text \<open>
  The simulation of \<^verbatim>\<open>Lobster_Folder/agent.py\<close> and \<^verbatim>\<open>Lobster_Folder/model.py\<close>.
  Python objects are shared by reference, so every agent lives in an object store that
  maps its \<^verbatim>\<open>unique_id\<close> to its fields; the grid, the scheduler and the \<^verbatim>\<open>home\<close>
  field of a boat hold ids. Record fields carry a prefix for their class
  (\<open>l_\<close> Lobster, \<open>b_\<close> Boat, \<open>h_\<close> Home, \<open>hs_\<close> Heat\_Spot), since one theory cannot
  declare the field \<open>pos\<close> five times. The string constants the code compares
  (\<^verbatim>\<open>"Wander"\<close>, \<^verbatim>\<open>"Caught"\<close>, \<^verbatim>\<open>"Search"\<close>, \<^verbatim>\<open>"Return"\<close>, \<^verbatim>\<open>"Small"\<close>, \<^verbatim>\<open>"Big"\<close>) are
  datatypes.
\<close>

type_synonym pos = "int \<times> int"

datatype error =
  OutOfBounds | ValueError | IndexError | KeyError | AttributeError | RecursionError | Hang

datatype lobster_state = Wander | Caught
datatype boat_state = Search | Return
datatype boat_size = Small | Big

record lobster =
  l_pos :: pos
  l_state :: lobster_state
  l_moore :: bool
  l_timer :: int
  l_count :: int
  l_counts :: "int list"
  l_schedule :: "nat list"
  l_turn :: int

record boat =
  b_home :: nat
  b_pos :: pos
  b_size :: boat_size
  b_state :: boat_state
  b_moore :: bool
  b_amount :: int
  b_turn :: int
  b_unable :: bool

record home =
  h_pos :: pos
  h_amount :: int
  h_size :: string

record heat_spot =
  hs_moore :: bool
  hs_pos :: pos
  hs_count :: int
  hs_turn :: int
  hs_tracks :: "int list"

datatype agent =
  Ocean pos | Lobster lobster | Boat boat | Home home | Heat_Spot heat_spot

fun agent_pos :: "agent \<Rightarrow> pos" where
  "agent_pos (Ocean p) = p"
| "agent_pos (Lobster l) = l_pos l"
| "agent_pos (Boat b) = b_pos b"
| "agent_pos (Home h) = h_pos h"
| "agent_pos (Heat_Spot h) = hs_pos h"

fun set_agent_pos :: "pos \<Rightarrow> agent \<Rightarrow> agent" where
  "set_agent_pos p (Ocean _) = Ocean p"
| "set_agent_pos p (Lobster l) = Lobster (l\<lparr>l_pos := p\<rparr>)"
| "set_agent_pos p (Boat b) = Boat (b\<lparr>b_pos := p\<rparr>)"
| "set_agent_pos p (Home h) = Home (h\<lparr>h_pos := p\<rparr>)"
| "set_agent_pos p (Heat_Spot h) = Heat_Spot (h\<lparr>hs_pos := p\<rparr>)"

text \<open>
  The World of \<^verbatim>\<open>model.py\<close>. \<open>agents\<close> is the object store, \<open>grid\<close> the cell lists of
  the MultiGrid, \<open>schedule\<close> the scheduler's agents in registration order and \<open>time\<close>
  its clock. \<open>rnd\<close> is the random source: each call of \<^verbatim>\<open>random\<close> takes the next
  number of it. The three DataCollectors are the lists of the values collected so far.
  \<open>current_id\<close> is the counter behind \<^verbatim>\<open>next_id()\<close>. \<open>density\<close> is a float between 0
  and 1 in the code and is kept in hundredths here, as are the values of
  \<^verbatim>\<open>random.random()\<close> it is compared with. The lists \<^verbatim>\<open>lobster_loc\<close>, \<^verbatim>\<open>all_boat_loc\<close>,
  \<^verbatim>\<open>small_boat_loc\<close>, \<^verbatim>\<open>big_boat_loc\<close> and \<^verbatim>\<open>heat_spot_loc\<close> and the fields \<^verbatim>\<open>lobster\<close>,
  \<^verbatim>\<open>boat\<close> and \<^verbatim>\<open>movement\<close> are written by \<^verbatim>\<open>__init__\<close> and never read; they are left out.
\<close>

record world =
  height :: int
  width :: int
  sim_length :: int
  agents :: "nat \<Rightarrow> agent option"
  grid :: "pos \<Rightarrow> nat list"
  schedule :: "nat list"
  time :: int
  lobster_count :: int
  big_count :: int
  small_count :: int
  running :: bool
  dc_lobster :: "int list"
  dc_big :: "int list"
  dc_small :: "int list"
  rnd :: "nat list"
  current_id :: nat
  density :: nat


section \<open>The grid, the scheduler and the random source\<close>

text \<open>
  The classes \<^verbatim>\<open>MultiGrid\<close> and \<^verbatim>\<open>SimultaneousActivation\<close> come from the Mesa
  library, which the repository imports and does not contain. The functions of this
  section are their contract.
\<close>

text \<open>
  Modelled from the spec: the bounded, non-toroidal grid of section 4.1 (Mesa's
  \<^verbatim>\<open>MultiGrid(width, height, torus)\<close>). \<^verbatim>\<open>World.__init__\<close> builds it as
  \<^verbatim>\<open>MultiGrid(height, width, torus=False)\<close>, so the grid's first extent (the x range)
  is the World's \<open>height\<close> and its second (the y range, the rows) is the World's
  \<open>width\<close>.
\<close>

definition grid_width :: "world \<Rightarrow> int" where
  "grid_width w = height w"

definition grid_height :: "world \<Rightarrow> int" where
  "grid_height w = width w"

definition out_of_bounds :: "world \<Rightarrow> pos \<Rightarrow> bool" where
  "out_of_bounds w p =
     (fst p < 0 \<or> grid_width w \<le> fst p \<or> snd p < 0 \<or> grid_height w \<le> snd p)"

text \<open>
  Modelled from the spec: \<^verbatim>\<open>get_neighborhood(pos, moore, include_center)\<close>, the
  in-bounds cells around \<open>pos\<close> (8-connected when \<open>moore\<close>, 4-connected otherwise), rows
  outermost as Mesa enumerates them.
\<close>

definition get_neighborhood :: "world \<Rightarrow> pos \<Rightarrow> bool \<Rightarrow> bool \<Rightarrow> pos list" where
  "get_neighborhood w p moore include_center =
     filter (\<lambda>q. (include_center \<or> q \<noteq> p)
                \<and> (moore \<or> \<bar>fst q - fst p\<bar> + \<bar>snd q - snd p\<bar> \<le> 1)
                \<and> \<not> out_of_bounds w q)
       (concat (map (\<lambda>dy. map (\<lambda>dx. (fst p + dx, snd p + dy)) [- 1, 0, 1]) [- 1, 0, 1]))"

text \<open>
  Modelled from the spec: \<^verbatim>\<open>get_neighbors(pos, moore, include_center)\<close>, the occupants
  of the cells of the neighbourhood, cell by cell.
\<close>

definition get_neighbors :: "world \<Rightarrow> pos \<Rightarrow> bool \<Rightarrow> bool \<Rightarrow> nat list" where
  "get_neighbors w p moore include_center =
     concat (map (grid w) (get_neighborhood w p moore include_center))"

text \<open>
  Modelled from the spec: \<^verbatim>\<open>get_cell_list_contents([(x, y)])\<close>, the occupants of one
  cell; indexing a cell beyond the grid's extents raises.
\<close>

definition get_cell_list_contents :: "world \<Rightarrow> pos \<Rightarrow> error + nat list" where
  "get_cell_list_contents w p = (if out_of_bounds w p then Inl IndexError else Inr (grid w p))"

text \<open>
  Modelled from the spec: \<^verbatim>\<open>place_agent(agent, pos)\<close> inserts the agent into the
  occupants of \<open>pos\<close> and sets its position; it fails out of bounds.
\<close>

definition place_agent :: "nat \<Rightarrow> pos \<Rightarrow> world \<Rightarrow> error + world" where
  "place_agent i p w =
     (if out_of_bounds w p then Inl IndexError
      else case agents w i of
        None \<Rightarrow> Inl AttributeError
      | Some a \<Rightarrow>
          Inr (w\<lparr>grid := (grid w)(p := (if i \<in> set (grid w p) then grid w p else grid w p @ [i])),
                 agents := (agents w)(i \<mapsto> set_agent_pos p a)\<rparr>))"

text \<open>
  Modelled from the spec: \<^verbatim>\<open>move_agent(agent, pos)\<close> removes the agent from its old
  cell and places it at the new one, updating grid and agent together; it fails with
  the out-of-bounds error when the destination is outside the grid (the grid is not a
  torus), before anything is changed, and with a ValueError when the agent is not
  among the occupants of the cell it claims to be in.
\<close>

definition move_agent :: "nat \<Rightarrow> pos \<Rightarrow> world \<Rightarrow> error + world" where
  "move_agent i p w =
     (if out_of_bounds w p then Inl OutOfBounds
      else case agents w i of
        None \<Rightarrow> Inl AttributeError
      | Some a \<Rightarrow>
          if i \<notin> set (grid w (agent_pos a)) then Inl ValueError
          else
            (let g = (grid w)(agent_pos a := remove1 i (grid w (agent_pos a)))
             in Inr (w\<lparr>grid := g(p := (if i \<in> set (g p) then g p else g p @ [i])),
                      agents := (agents w)(i \<mapsto> set_agent_pos p a)\<rparr>)))"

text \<open>
  The random source. \<open>next_random\<close> takes the next number (0 once the source is used
  up). \<^verbatim>\<open>random.choice(xs)\<close> raises IndexError on an empty list and otherwise picks
  the element the number selects; \<^verbatim>\<open>random.random()\<close> is a value in hundredths, so
  \<^verbatim>\<open>random.random() < 0.25\<close> is \<open>< 25\<close>; \<^verbatim>\<open>random.randint(a, b)\<close> is a value from \<open>a\<close>
  to \<open>b\<close>, both included, and raises ValueError on an empty range.
\<close>

definition next_random :: "world \<Rightarrow> nat \<times> world" where
  "next_random w = (case rnd w of [] \<Rightarrow> (0, w) | r # rs \<Rightarrow> (r, w\<lparr>rnd := rs\<rparr>))"

definition random_choice :: "'a list \<Rightarrow> world \<Rightarrow> error + ('a \<times> world)" where
  "random_choice xs w =
     (if xs = [] then Inl IndexError
      else Inr (xs ! (fst (next_random w) mod length xs), snd (next_random w)))"

definition random_random :: "world \<Rightarrow> nat \<times> world" where
  "random_random w = (fst (next_random w) mod 100, snd (next_random w))"

definition random_below_quarter :: "world \<Rightarrow> bool \<times> world" where
  "random_below_quarter w = (fst (random_random w) < 25, snd (random_random w))"

definition randint :: "int \<Rightarrow> int \<Rightarrow> world \<Rightarrow> error + (int \<times> world)" where
  "randint a b w =
     (if b < a then Inl ValueError
      else Inr (a + int (fst (next_random w)) mod (b - a + 1), snd (next_random w)))"


text \<open>
  A \<^verbatim>\<open>for\<close> loop whose body changes the world and may raise: the first exception
  ends the loop.
\<close>

fun for_each :: "('a \<Rightarrow> world \<Rightarrow> error + world) \<Rightarrow> 'a list \<Rightarrow> world \<Rightarrow> error + world" where
  "for_each f [] w = Inr w"
| "for_each f (x # xs) w = (case f x w of Inl e \<Rightarrow> Inl e | Inr w' \<Rightarrow> for_each f xs w')"

section \<open>agent.py\<close>

text \<open>
  \<^verbatim>\<open>get_distance\<close> returns \<^verbatim>\<open>math.sqrt(dx ** 2 + dy ** 2)\<close>. The code only takes the
  minimum of distances and compares them for equality, and the square root is strictly
  monotone, so the model keeps the integer under the root.
\<close>

definition get_distance_sq :: "pos \<Rightarrow> pos \<Rightarrow> int" where
  "get_distance_sq pos_1 pos_2 = (fst pos_1 - fst pos_2)\<^sup>2 + (snd pos_1 - snd pos_2)\<^sup>2"

text \<open>Writing the fields of the object with id \<open>i\<close>, when it is of the right class.\<close>

definition upd_lobster :: "nat \<Rightarrow> (lobster \<Rightarrow> lobster) \<Rightarrow> world \<Rightarrow> world" where
  "upd_lobster i f w =
     (case agents w i of
        Some (Lobster l) \<Rightarrow> w\<lparr>agents := (agents w)(i \<mapsto> Lobster (f l))\<rparr>
      | _ \<Rightarrow> w)"

definition upd_boat :: "nat \<Rightarrow> (boat \<Rightarrow> boat) \<Rightarrow> world \<Rightarrow> world" where
  "upd_boat i f w =
     (case agents w i of
        Some (Boat b) \<Rightarrow> w\<lparr>agents := (agents w)(i \<mapsto> Boat (f b))\<rparr>
      | _ \<Rightarrow> w)"

definition upd_heat_spot :: "nat \<Rightarrow> (heat_spot \<Rightarrow> heat_spot) \<Rightarrow> world \<Rightarrow> world" where
  "upd_heat_spot i f w =
     (case agents w i of
        Some (Heat_Spot h) \<Rightarrow> w\<lparr>agents := (agents w)(i \<mapsto> Heat_Spot (f h))\<rparr>
      | _ \<Rightarrow> w)"

subsection \<open>Heat\_Spot\<close>

text \<open>\<^verbatim>\<open>Heat_Spot.__init__\<close>: the fields of a new heat spot at \<open>pos\<close>.\<close>

definition Heat_Spot_init :: "pos \<Rightarrow> heat_spot" where
  "Heat_Spot_init p =
     \<lparr>hs_moore = True, hs_pos = p, hs_count = 4, hs_turn = 0, hs_tracks = [0, 1, 2, 3, 4]\<rparr>"

text \<open>
  \<^verbatim>\<open>Heat_Spot.step\<close>: the turn counter goes up; on every fifth turn the heat spot is
  moved to the row \<open>count\<close> of its column, then \<open>count\<close> goes up and the new \<open>count\<close> is
  appended to \<open>tracks\<close>.
\<close>

definition Heat_Spot_step :: "nat \<Rightarrow> world \<Rightarrow> error + world" where
  "Heat_Spot_step i w =
     (case agents w i of
        Some (Heat_Spot h0) \<Rightarrow>
          (let h = h0\<lparr>hs_turn := hs_turn h0 + 1\<rparr>;
               w1 = w\<lparr>agents := (agents w)(i \<mapsto> Heat_Spot h)\<rparr>
           in if hs_turn h mod 5 = 0 then
                (case move_agent i (fst (hs_pos h), hs_count h) w1 of
                   Inl e \<Rightarrow> Inl e
                 | Inr w2 \<Rightarrow>
                     Inr (upd_heat_spot i
                            (\<lambda>h. h\<lparr>hs_count := hs_count h + 1,
                                    hs_tracks := hs_tracks h @ [hs_count h + 1]\<rparr>) w2))
              else Inr w1)
      | _ \<Rightarrow> Inl AttributeError)"

subsection \<open>Lobster\<close>

text \<open>
  \<^verbatim>\<open>Lobster.__init__\<close>: a new lobster at \<open>pos\<close>; \<open>timer\<close> is the random number drawn for
  it. \<open>l_schedule\<close> is the lobster's own scheduler, a fresh
  \<^verbatim>\<open>SimultaneousActivation\<close> with no agent registered.
\<close>

definition Lobster_init :: "pos \<Rightarrow> int \<Rightarrow> lobster" where
  "Lobster_init p t =
     \<lparr>l_pos = p, l_state = Wander, l_moore = True, l_timer = t, l_count = 0,
      l_counts = [0], l_schedule = [], l_turn = 0\<rparr>"

text \<open>
  \<^verbatim>\<open>Lobster.caught\<close>: a Caught lobster removes itself from its own scheduler
  (\<^verbatim>\<open>self.schedule\<close>, not the World's). Modelled from the spec: \<^verbatim>\<open>remove(agent)\<close> of
  section 4.2 deletes the agent from the registered ones; Mesa's deletes a dictionary
  key and raises KeyError when the agent is not registered.
\<close>

definition caught :: "nat \<Rightarrow> world \<Rightarrow> error + world" where
  "caught i w =
     (case agents w i of
        Some (Lobster l) \<Rightarrow>
          if l_state l = Caught then
            (if i \<in> set (l_schedule l)
             then Inr (upd_lobster i (\<lambda>l. l\<lparr>l_schedule := removeAll i (l_schedule l)\<rparr>) w)
             else Inl KeyError)
          else Inr w
      | _ \<Rightarrow> Inl AttributeError)"

text \<open>The heat spots among the given occupants, in their order.\<close>

definition heat_spots_of :: "world \<Rightarrow> nat list \<Rightarrow> heat_spot list" where
  "heat_spots_of w js =
     List.map_filter (\<lambda>j. case agents w j of Some (Heat_Spot h) \<Rightarrow> Some h | _ \<Rightarrow> None) js"

text \<open>
  \<^verbatim>\<open>Lobster.heat_locater\<close>: the loop over the neighbouring heat spots returns in its
  first round, with the \<open>tracks\<close> of the first heat spot; with no heat spot the result
  is \<^verbatim>\<open>None\<close>.
\<close>

definition heat_locater :: "lobster \<Rightarrow> world \<Rightarrow> int list option" where
  "heat_locater l w =
     (case heat_spots_of w (get_neighbors w (l_pos l) (l_moore l) False) of
        [] \<Rightarrow> None
      | h # _ \<Rightarrow> Some (hs_tracks h))"

text \<open>The list \<^verbatim>\<open>moves\<close> that \<^verbatim>\<open>move_north\<close> builds before it chooses.\<close>

definition move_north_moves :: "lobster \<Rightarrow> world \<Rightarrow> pos list" where
  "move_north_moves l w =
     (case heat_locater l w of
        None \<Rightarrow> []
      | Some heat \<Rightarrow>
          filter (\<lambda>move. snd move \<notin> set heat) (get_neighborhood w (l_pos l) (l_moore l) True))"

definition is_lobster :: "world \<Rightarrow> nat \<Rightarrow> bool" where
  "is_lobster w j = (case agents w j of Some (Lobster _) \<Rightarrow> True | _ \<Rightarrow> False)"

definition row_of :: "world \<Rightarrow> nat \<Rightarrow> int" where
  "row_of w j = (case agents w j of Some a \<Rightarrow> snd (agent_pos a) | None \<Rightarrow> 0)"

text \<open>\<^verbatim>\<open>World.size\<close> of \<^verbatim>\<open>model.py\<close>, which \<^verbatim>\<open>neighbor_move\<close> calls.\<close>

definition World_size :: "world \<Rightarrow> int" where
  "World_size w = width w"

text \<open>
  \<^verbatim>\<open>Lobster.neighbor_move\<close>. The list of neighbouring lobsters is taken once; the loop
  then calls \<^verbatim>\<open>neighbor_move\<close> of each one that is, at that moment, in a higher row
  than this lobster; last, one time in four, this lobster moves up one row if that row
  is below \<^verbatim>\<open>model.size()\<close>. The first argument bounds the depth of the recursion, as
  the interpreter's recursion limit does.
\<close>

fun neighbor_move :: "nat \<Rightarrow> nat \<Rightarrow> world \<Rightarrow> error + world" where
  "neighbor_move 0 i w = Inl RecursionError"
| "neighbor_move (Suc n) i w =
     (case agents w i of
        Some (Lobster l) \<Rightarrow>
          (case for_each (\<lambda>j w'. if row_of w' j > row_of w' i then neighbor_move n j w' else Inr w')
                  (filter (is_lobster w) (get_neighbors w (l_pos l) (l_moore l) False)) w of
             Inl e \<Rightarrow> Inl e
           | Inr w1 \<Rightarrow>
               (let w2 = snd (random_below_quarter w1) in
                if fst (random_below_quarter w1) then
                  (case agents w2 i of
                     Some a \<Rightarrow>
                       if snd (agent_pos a) + 1 < World_size w2
                       then move_agent i (fst (agent_pos a), snd (agent_pos a) + 1) w2
                       else Inr w2
                   | None \<Rightarrow> Inl AttributeError)
                else Inr w2))
      | _ \<Rightarrow> Inl AttributeError)"

text \<open>
  \<^verbatim>\<open>Lobster.move_north\<close>: nothing happens when \<^verbatim>\<open>moves\<close> is empty; otherwise the
  lobster is moved to a random element of it and \<^verbatim>\<open>neighbor_move\<close> runs.
\<close>

definition move_north :: "nat \<Rightarrow> nat \<Rightarrow> world \<Rightarrow> error + world" where
  "move_north fuel i w =
     (case agents w i of
        Some (Lobster l) \<Rightarrow>
          (let moves = move_north_moves l w in
           if length moves = 0 then Inr w
           else
             (case random_choice moves w of
                Inl e \<Rightarrow> Inl e
              | Inr (next_move, w1) \<Rightarrow>
                  (case move_agent i next_move w1 of
                     Inl e \<Rightarrow> Inl e
                   | Inr w2 \<Rightarrow> neighbor_move fuel i w2)))
      | _ \<Rightarrow> Inl AttributeError)"

text \<open>\<^verbatim>\<open>Lobster.step\<close>. The state of the lobster is not looked at.\<close>

definition Lobster_step :: "nat \<Rightarrow> nat \<Rightarrow> world \<Rightarrow> error + world" where
  "Lobster_step fuel i w =
     (case agents w i of
        Some (Lobster _) \<Rightarrow>
          (case move_north fuel i (upd_lobster i (\<lambda>l. l\<lparr>l_turn := l_turn l + 1\<rparr>) w) of
             Inl e \<Rightarrow> Inl e
           | Inr w1 \<Rightarrow>
               Inr (upd_lobster i
                      (\<lambda>l. l\<lparr>l_count := l_count l + 1, l_counts := l_counts l @ [l_count l + 1]\<rparr>)
                      w1))
      | _ \<Rightarrow> Inl AttributeError)"


subsection \<open>Boat\<close>

text \<open>\<^verbatim>\<open>Boat.__init__\<close>: a new boat at \<open>pos\<close> with the port \<open>home\<close>.\<close>

definition Boat_init :: "pos \<Rightarrow> nat \<Rightarrow> boat" where
  "Boat_init p hm =
     \<lparr>b_home = hm, b_pos = p, b_size = Small, b_state = Search, b_moore = True,
      b_amount = 0, b_turn = 0, b_unable = False\<rparr>"

definition able_to_return :: "boat \<Rightarrow> bool" where
  "able_to_return b =
     (if b_size b = Big \<and> b_amount b = 10 then True
      else if b_size b = Small \<and> b_amount b = 5 then True
      else False)"

text \<open>The positions of the Ocean agents among the given occupants.\<close>

definition ocean_positions :: "world \<Rightarrow> nat list \<Rightarrow> pos list" where
  "ocean_positions w js =
     List.map_filter (\<lambda>j. case agents w j of Some (Ocean p) \<Rightarrow> Some p | _ \<Rightarrow> None) js"

text \<open>
  \<^verbatim>\<open>Boat.return_home\<close>: among the positions of the neighbouring Ocean agents, those
  nearest to the home port; \<^verbatim>\<open>min\<close> of an empty list raises ValueError. The shuffled
  list's first element is a random one of the candidates.
\<close>

definition return_home :: "nat \<Rightarrow> world \<Rightarrow> error + world" where
  "return_home i w =
     (case agents w i of
        Some (Boat b) \<Rightarrow>
          (case agents w (b_home b) of
             Some hm \<Rightarrow>
               (let neighbors = ocean_positions w (get_neighbors w (b_pos b) (b_moore b) False) in
                if neighbors = [] then Inl ValueError
                else
                  (let min_dist = Min (set (map (get_distance_sq (agent_pos hm)) neighbors));
                       final_candidates =
                         filter (\<lambda>p. get_distance_sq (agent_pos hm) p = min_dist) neighbors
                   in case random_choice final_candidates w of
                        Inl e \<Rightarrow> Inl e
                      | Inr (p, w1) \<Rightarrow> move_agent i p w1))
           | None \<Rightarrow> Inl AttributeError)
      | _ \<Rightarrow> Inl AttributeError)"

definition is_wander_lobster :: "world \<Rightarrow> nat \<Rightarrow> bool" where
  "is_wander_lobster w j =
     (case agents w j of Some (Lobster l) \<Rightarrow> l_state l = Wander | _ \<Rightarrow> False)"

text \<open>
  \<^verbatim>\<open>Boat.catch\<close>: the first Wander lobster among the occupants of the neighbourhood
  (the boat's own cell included) is caught: the boat moves onto its cell, the amount
  goes up by one and the lobster's state becomes Caught.
\<close>

definition catch :: "nat \<Rightarrow> world \<Rightarrow> error + (bool \<times> world)" where
  "catch i w =
     (case agents w i of
        Some (Boat b) \<Rightarrow>
          (case find (is_wander_lobster w) (get_neighbors w (b_pos b) (b_moore b) True) of
             None \<Rightarrow> Inr (False, w)
           | Some n \<Rightarrow>
               (case agents w n of
                  None \<Rightarrow> Inl AttributeError
                | Some a \<Rightarrow>
                    (case move_agent i (agent_pos a) w of
                       Inl e \<Rightarrow> Inl e
                     | Inr w1 \<Rightarrow>
                         Inr (True,
                              upd_lobster n (\<lambda>l. l\<lparr>l_state := Caught\<rparr>)
                                (upd_boat i (\<lambda>b. b\<lparr>b_amount := b_amount b + 1\<rparr>) w1)))))
      | _ \<Rightarrow> Inl AttributeError)"

text \<open>
  One round of the loop of \<^verbatim>\<open>Boat.random_move\<close>: \<open>Inr\<close> when the \<^verbatim>\<open>try\<close> block went
  through (the \<^verbatim>\<open>else: break\<close>), \<open>Inl\<close> with the world as the exception left it
  when the bare \<^verbatim>\<open>except\<close> swallowed one.
\<close>

definition random_move_try :: "nat \<Rightarrow> world \<Rightarrow> world + world" where
  "random_move_try i w =
     (case agents w i of
        Some (Boat b) \<Rightarrow>
          (case random_choice (get_neighborhood w (b_pos b) (b_moore b) True) w of
             Inl e \<Rightarrow> Inl w
           | Inr (next_move, w1) \<Rightarrow>
               (case move_agent i next_move w1 of Inl e \<Rightarrow> Inl w1 | Inr w2 \<Rightarrow> Inr w2))
      | _ \<Rightarrow> Inl w)"

text \<open>
  \<^verbatim>\<open>Boat.random_move\<close>: \<^verbatim>\<open>while True\<close> around the round above; \<open>None\<close> is the loop
  that never ends.
\<close>

partial_function (option) random_move :: "nat \<Rightarrow> world \<Rightarrow> world option" where
  "random_move i w =
     (case random_move_try i w of
        Inr w' \<Rightarrow> Some w'
      | Inl w' \<Rightarrow> random_move i w')"

declare random_move.simps [code]

definition smart_move :: "nat \<Rightarrow> world \<Rightarrow> error + world" where
  "smart_move i w =
     (case agents w i of
        Some (Boat b) \<Rightarrow> move_agent i (fst (b_pos b), snd (b_pos b) + 1) w
      | _ \<Rightarrow> Inl AttributeError)"

definition in_storage :: "boat \<Rightarrow> world \<Rightarrow> world" where
  "in_storage b w = w\<lparr>big_count := big_count w + b_amount b\<rparr>"

text \<open>
  \<^verbatim>\<open>Boat.step\<close>. A \<^verbatim>\<open>random_move\<close> that never returns is the result \<open>Inl Hang\<close>.
\<close>

definition Boat_step :: "nat \<Rightarrow> world \<Rightarrow> error + world" where
  "Boat_step i w =
     (case agents w i of
        Some (Boat b0) \<Rightarrow>
          (let b = b0\<lparr>b_turn := b_turn b0 + 1\<rparr>;
               w1 = w\<lparr>agents := (agents w)(i \<mapsto> Boat b)\<rparr>
           in if b_state b = Search then
                (if (b_size b = Small \<and> snd (b_pos b) < 26) \<or> b_size b = Big then
                   (case (if snd (b_pos b) < 4 + b_turn b div 5 then smart_move i w1
                          else (case random_move i w1 of
                                  None \<Rightarrow> Inl Hang | Some w' \<Rightarrow> Inr w')) of
                      Inl e \<Rightarrow> Inl e
                    | Inr w2 \<Rightarrow>
                        (case catch i w2 of
                           Inl e \<Rightarrow> Inl e
                         | Inr (c, w3) \<Rightarrow>
                             (if c then
                                (case agents w3 i of
                                   Some (Boat b3) \<Rightarrow>
                                     if able_to_return b3
                                     then Inr (upd_boat i (\<lambda>b. b\<lparr>b_state := Return\<rparr>) w3)
                                     else Inr w3
                                 | _ \<Rightarrow> Inl AttributeError)
                              else Inr w3)))
                 else Inr (upd_boat i (\<lambda>b. b\<lparr>b_unable := True, b_state := Return\<rparr>) w1))
              else
                (case agents w1 (b_home b) of
                   Some hm \<Rightarrow>
                     if b_pos b = agent_pos hm then
                       (let w2 = (if \<not> b_unable b
                                  then upd_boat i (\<lambda>b. b\<lparr>b_state := Search\<rparr>) w1 else w1);
                            w3 = (if b_size b = Big
                                  then w2\<lparr>big_count := big_count w2 + b_amount b\<rparr>
                                  else w2\<lparr>small_count := small_count w2 + b_amount b\<rparr>)
                        in Inr (upd_boat i (\<lambda>b. b\<lparr>b_amount := 0\<rparr>) w3))
                     else return_home i w1
                 | None \<Rightarrow> Inl AttributeError))
      | _ \<Rightarrow> Inl AttributeError)"


section \<open>model.py\<close>

text \<open>
  CPython's default recursion limit, the depth at which \<^verbatim>\<open>neighbor_move\<close> would raise
  RecursionError.
\<close>

definition recursion_limit :: nat where
  "recursion_limit = 1000"

text \<open>
  Modelled from the spec: the scheduler of section 4.2. \<^verbatim>\<open>step()\<close> calls the \<^verbatim>\<open>step()\<close>
  of every registered agent once, one after the other in registration order, and then
  advances the clock. Ocean and Home define no \<^verbatim>\<open>step\<close>; theirs is the empty one of
  the base class.
\<close>

definition agent_step :: "nat \<Rightarrow> world \<Rightarrow> error + world" where
  "agent_step i w =
     (case agents w i of
        Some (Ocean _) \<Rightarrow> Inr w
      | Some (Home _) \<Rightarrow> Inr w
      | Some (Heat_Spot _) \<Rightarrow> Heat_Spot_step i w
      | Some (Boat _) \<Rightarrow> Boat_step i w
      | Some (Lobster _) \<Rightarrow> Lobster_step recursion_limit i w
      | None \<Rightarrow> Inl AttributeError)"

definition schedule_step :: "world \<Rightarrow> error + world" where
  "schedule_step w =
     (case for_each agent_step (schedule w) w of
        Inl e \<Rightarrow> Inl e
      | Inr w' \<Rightarrow> Inr (w'\<lparr>time := time w' + 1\<rparr>))"

text \<open>
  \<^verbatim>\<open>World.count_lobster\<close>: the cells \<open>(x, y)\<close> with \<open>x\<close> in \<^verbatim>\<open>range(self.width)\<close> and \<open>y\<close>
  in \<^verbatim>\<open>range(self.height-1)\<close>.
\<close>

definition count_lobster_cells :: "world \<Rightarrow> pos list" where
  "count_lobster_cells w =
     concat (map (\<lambda>x. map (\<lambda>y. (x, y)) [0..height w - 1 - 1]) [0..width w - 1])"

definition count_lobster :: "world \<Rightarrow> error + world" where
  "count_lobster w =
     for_each
       (\<lambda>p w'. case get_cell_list_contents w' p of
                 Inl e \<Rightarrow> Inl e
               | Inr spot_agents \<Rightarrow>
                   Inr (w'\<lparr>lobster_count :=
                             lobster_count w' + int (length (filter (is_wander_lobster w') spot_agents))\<rparr>))
       (count_lobster_cells w) (w\<lparr>lobster_count := 0\<rparr>)"

text \<open>The three \<^verbatim>\<open>collect\<close> calls: each collector records its counter.\<close>

definition collect :: "world \<Rightarrow> world" where
  "collect w =
     w\<lparr>dc_lobster := dc_lobster w @ [lobster_count w],
       dc_big := dc_big w @ [big_count w],
       dc_small := dc_small w @ [small_count w]\<rparr>"

text \<open>The loop of \<^verbatim>\<open>World.step\<close> that calls \<^verbatim>\<open>in_storage\<close> of every scheduled Boat.\<close>

definition bank_all :: "world \<Rightarrow> world" where
  "bank_all w =
     fold (\<lambda>i w'. case agents w' i of Some (Boat b) \<Rightarrow> in_storage b w' | _ \<Rightarrow> w') (schedule w) w"

definition World_step :: "world \<Rightarrow> error + world" where
  "World_step w =
     (case schedule_step w of
        Inl e \<Rightarrow> Inl e
      | Inr w1 \<Rightarrow>
          (case count_lobster w1 of
             Inl e \<Rightarrow> Inl e
           | Inr w2 \<Rightarrow>
               (let w3 = collect w2 in
                if time w3 = sim_length w3
                then Inr ((collect (bank_all w3))\<lparr>running := False\<rparr>)
                else Inr w3)))"


subsection \<open>World.\_\_init\_\_\<close>

text \<open>
  What \<^verbatim>\<open>__init__\<close> does with every agent it builds: \<^verbatim>\<open>self.next_id()\<close> for its id,
  \<^verbatim>\<open>self.grid.place_agent\<close>, \<^verbatim>\<open>self.schedule.add\<close>.
\<close>

definition register :: "agent \<Rightarrow> world \<Rightarrow> error + world" where
  "register a w =
     (let i = current_id w + 1;
          w1 = w\<lparr>current_id := i, agents := (agents w)(i \<mapsto> a)\<rparr>
      in case place_agent i (agent_pos a) w1 of
           Inl e \<Rightarrow> Inl e
         | Inr w2 \<Rightarrow> Inr (w2\<lparr>schedule := schedule w2 @ [i]\<rparr>))"

definition Home_init :: "pos \<Rightarrow> string \<Rightarrow> home" where
  "Home_init p sz = \<lparr>h_pos = p, h_amount = 0, h_size = sz\<rparr>"

text \<open>Modelled from the spec: \<^verbatim>\<open>coord_iter()\<close>, every cell of the grid, column by column.\<close>

definition coord_iter :: "world \<Rightarrow> pos list" where
  "coord_iter w =
     concat (map (\<lambda>x. map (\<lambda>y. (x, y)) [0..grid_height w - 1]) [0..grid_width w - 1])"

text \<open>
  The body of the loop over the boats. The ports are the first three agents built, so
  their ids are 1, 2 and 3.
\<close>

definition new_boat :: "world \<Rightarrow> error + world" where
  "new_boat w =
     (case randint 0 (width w - 1) w of
        Inl e \<Rightarrow> Inl e
      | Inr (x0, w1) \<Rightarrow>
          (case randint 0 3 w1 of
             Inl e \<Rightarrow> Inl e
           | Inr (y0, w2) \<Rightarrow>
               (let r = fst (random_random w2);
                    w3 = snd (random_random w2);
                    x = fst (random_random w3);
                    w4 = snd (random_random w3);
                    new_boat = (if x < 33 then Boat_init (x0, y0) 1
                                else if x < 66 then Boat_init (x0, y0) 2
                                else Boat_init (x0, y0) 3)
                in register
                     (Boat (if r < density w then new_boat\<lparr>b_size := Small\<rparr>
                            else if r > density w then new_boat\<lparr>b_size := Big\<rparr>
                            else new_boat)) w4)))"

definition new_lobster :: "world \<Rightarrow> error + world" where
  "new_lobster w =
     (case randint 0 (height w - 1) w of
        Inl e \<Rightarrow> Inl e
      | Inr (x0, w1) \<Rightarrow>
          (case randint 4 (height w - 1) w1 of
             Inl e \<Rightarrow> Inl e
           | Inr (y0, w2) \<Rightarrow>
               (case randint 0 10 w2 of
                  Inl e \<Rightarrow> Inl e
                | Inr (t, w3) \<Rightarrow> register (Lobster (Lobster_init (x0, y0) t)) w3)))"

definition empty_world :: "int \<Rightarrow> int \<Rightarrow> nat \<Rightarrow> int \<Rightarrow> nat list \<Rightarrow> world" where
  "empty_world hgt wid dens len rs =
     \<lparr>height = hgt, width = wid, sim_length = len, agents = Map.empty, grid = (\<lambda>_. []),
      schedule = [], time = 0, lobster_count = 0, big_count = 0, small_count = 0,
      running = True, dc_lobster = [], dc_big = [], dc_small = [], rnd = rs,
      current_id = 0, density = dens\<rparr>"

definition World_init ::
  "int \<Rightarrow> int \<Rightarrow> nat \<Rightarrow> nat \<Rightarrow> nat \<Rightarrow> int \<Rightarrow> nat list \<Rightarrow> error + world" where
  "World_init hgt wid num_lobsters num_boats dens len rs =
     (case for_each (\<lambda>p. register (Home (Home_init p ''big''))) [(13, 0), (26, 0), (39, 0)]
             (empty_world hgt wid dens len rs) of
        Inl e \<Rightarrow> Inl e
      | Inr w1 \<Rightarrow>
          (case for_each (\<lambda>p. register (Ocean p)) (coord_iter w1) w1 of
             Inl e \<Rightarrow> Inl e
           | Inr w2 \<Rightarrow>
               (case for_each (\<lambda>i. register (Heat_Spot (Heat_Spot_init (i, 3)))) [0..width w2 - 1] w2 of
                  Inl e \<Rightarrow> Inl e
                | Inr w3 \<Rightarrow>
                    (case for_each (\<lambda>_. new_boat) [0..<num_boats] w3 of
                       Inl e \<Rightarrow> Inl e
                     | Inr w4 \<Rightarrow>
                         (case for_each (\<lambda>_. new_lobster) [0..<num_lobsters] w4 of
                            Inl e \<Rightarrow> Inl e
                          | Inr w5 \<Rightarrow> Inr (w5\<lparr>running := True\<rparr>))))))"

text \<open>A run: \<open>n\<close> calls of \<^verbatim>\<open>World.step\<close>, as the server makes them.\<close>

fun run :: "nat \<Rightarrow> world \<Rightarrow> error + world" where
  "run 0 w = Inr w"
| "run (Suc n) w = (case World_step w of Inl e \<Rightarrow> Inl e | Inr w' \<Rightarrow> run n w')"

section \<open>Properties: definitions\<close>

text \<open>
  Everything of the World that no agent's \<^verbatim>\<open>step\<close> writes when it only moves agents:
  all fields but the object store, the grid and the random source.
\<close>

definition frame ::
  "world \<Rightarrow> int \<times> int \<times> int \<times> nat list \<times> int \<times> int \<times> int \<times> int \<times> bool
     \<times> int list \<times> int list \<times> int list \<times> nat \<times> nat" where
  "frame w = (height w, width w, sim_length w, schedule w, time w, lobster_count w, big_count w,
     small_count w, running w, dc_lobster w, dc_big w, dc_small w, current_id w, density w)"

text \<open>
  An agent without what moving and stepping a lobster or a heat spot changes: the
  position of every agent, and all of a lobster but its state and all of a heat spot.
\<close>

fun strip :: "agent \<Rightarrow> agent" where
  "strip (Ocean p) = Ocean (0, 0)"
| "strip (Lobster l) = Lobster ((Lobster_init (0, 0) 0)\<lparr>l_state := l_state l\<rparr>)"
| "strip (Boat b) = Boat (b\<lparr>b_pos := (0, 0)\<rparr>)"
| "strip (Home h) = Home (h\<lparr>h_pos := (0, 0)\<rparr>)"
| "strip (Heat_Spot h) = Heat_Spot (Heat_Spot_init (0, 0))"

text \<open>
  \<open>moved w w'\<close>: the world \<open>w'\<close> differs from \<open>w\<close> at most in where agents are, in lobsters'
  and heat spots' own counters, in the grid and in the random source.
\<close>

definition moved :: "world \<Rightarrow> world \<Rightarrow> bool" where
  "moved w w' \<longleftrightarrow>
     frame w' = frame w \<and> (\<forall>j. map_option strip (agents w' j) = map_option strip (agents w j))"

text \<open>
  The capacity of a boat: the amount at which \<^verbatim>\<open>able_to_return\<close> holds, 5 for Small and
  10 for Big (lemma \<open>capacity_able_to_return\<close>).
\<close>

definition capacity :: "boat_size \<Rightarrow> int" where
  "capacity s = (case s of Small \<Rightarrow> 5 | Big \<Rightarrow> 10)"

text \<open>
  The bounds on the held catch: between 0 and the capacity, and below the capacity in
  Search.
\<close>

definition boat_ok :: "boat \<Rightarrow> bool" where
  "boat_ok b \<longleftrightarrow>
     0 \<le> b_amount b \<and> b_amount b \<le> capacity (b_size b)
     \<and> (b_state b = Search \<longrightarrow> b_amount b < capacity (b_size b))"

text \<open>
  The two tests of \<^verbatim>\<open>Boat.step\<close>: \<^verbatim>\<open>self.pos == self.home.pos\<close>, and the condition under
  which a boat in Search goes on searching,
  \<^verbatim>\<open>(self.size == "Small" and self.pos[1]<26) or self.size == "Big"\<close>.
\<close>

definition at_home :: "world \<Rightarrow> boat \<Rightarrow> bool" where
  "at_home w b = (case agents w (b_home b) of Some hm \<Rightarrow> b_pos b = agent_pos hm | None \<Rightarrow> False)"

definition eligible :: "boat \<Rightarrow> bool" where
  "eligible b \<longleftrightarrow> (b_size b = Small \<and> snd (b_pos b) < 26) \<or> b_size b = Big"

text \<open>
  What any number of steps keeps of a boat and of an agent: a boat keeps its size and
  its port, stays unable once it is, stays in Return once it is unable and in Return,
  and keeps the bounds on its held catch; a port keeps its amount; a lobster stays
  Caught once it is; no agent changes its class, and none appears or disappears.
\<close>

definition boat_evolves :: "boat \<Rightarrow> boat \<Rightarrow> bool" where
  "boat_evolves b b' \<longleftrightarrow>
     b_size b' = b_size b \<and> b_home b' = b_home b
     \<and> (b_unable b \<longrightarrow> b_unable b')
     \<and> (b_unable b \<and> b_state b = Return \<longrightarrow> b_state b' = Return)
     \<and> (boat_ok b \<longrightarrow> boat_ok b')"

fun evolves :: "agent \<Rightarrow> agent \<Rightarrow> bool" where
  "evolves (Boat b) (Boat b') = boat_evolves b b'"
| "evolves (Home h) (Home h') = (h_amount h' = h_amount h \<and> h_size h' = h_size h)"
| "evolves (Lobster l) (Lobster l') = (l_state l = Caught \<longrightarrow> l_state l' = Caught)"
| "evolves (Ocean _) (Ocean _) = True"
| "evolves (Heat_Spot _) (Heat_Spot _) = True"
| "evolves _ _ = False"

definition world_evolves :: "world \<Rightarrow> world \<Rightarrow> bool" where
  "world_evolves w w' \<longleftrightarrow> (\<forall>j. rel_option evolves (agents w j) (agents w' j))"

text \<open>
  The same for all agents but the one with id \<open>i\<close>.
\<close>

definition others_evolve :: "nat \<Rightarrow> world \<Rightarrow> world \<Rightarrow> bool" where
  "others_evolve i w w' \<longleftrightarrow> (\<forall>j. j \<noteq> i \<longrightarrow> rel_option evolves (agents w j) (agents w' j))"

text \<open>
  The effect of one \<^verbatim>\<open>Boat.step\<close> on the boat (\<open>b\<close> before, \<open>b'\<close> after) and on the two
  aggregates of the World, branch by branch: Search and searching on (no catch, or one
  catch and Return if that fills the boat), Search and too deep (unable, Return), Return
  at the port (unload by size, Search again unless unable), Return elsewhere.
\<close>

definition Boat_trans :: "world \<Rightarrow> boat \<Rightarrow> boat \<Rightarrow> world \<Rightarrow> bool" where
  "Boat_trans w b b' w' \<longleftrightarrow>
     b_home b' = b_home b \<and> b_size b' = b_size b \<and> b_moore b' = b_moore b
     \<and> b_turn b' = b_turn b + 1
     \<and> (if b_state b = Search then
          big_count w' = big_count w \<and> small_count w' = small_count w
          \<and> (if eligible b then
                b_unable b' = b_unable b
                \<and> (b_amount b' = b_amount b \<and> b_state b' = Search
                    \<or> b_amount b' = b_amount b + 1
                      \<and> b_state b' = (if able_to_return b' then Return else Search))
              else b_unable b' \<and> b_state b' = Return \<and> b_amount b' = b_amount b
                   \<and> b_pos b' = b_pos b)
        else
          b_unable b' = b_unable b
          \<and> (if at_home w b then
                b_pos b' = b_pos b \<and> b_amount b' = 0
                \<and> b_state b' = (if b_unable b then Return else Search)
                \<and> big_count w' = big_count w + (if b_size b = Big then b_amount b else 0)
                \<and> small_count w' = small_count w + (if b_size b = Big then 0 else b_amount b)
              else b_amount b' = b_amount b \<and> b_state b' = Return
                   \<and> big_count w' = big_count w \<and> small_count w' = small_count w))"

text \<open>
  An agent as \<^verbatim>\<open>World.__init__\<close> builds it: a boat holds nothing, is in Search and not
  unable; a port holds nothing. \<open>all_agents P w\<close>: every agent of the object store
  satisfies \<open>P\<close>.
\<close>

definition as_built :: "agent \<Rightarrow> bool" where
  "as_built a =
     (case a of
        Boat b \<Rightarrow> b_amount b = 0 \<and> b_state b = Search \<and> \<not> b_unable b
      | Home h \<Rightarrow> h_amount h = 0
      | _ \<Rightarrow> True)"

definition all_agents :: "(agent \<Rightarrow> bool) \<Rightarrow> world \<Rightarrow> bool" where
  "all_agents P w \<longleftrightarrow> (\<forall>i a. agents w i = Some a \<longrightarrow> P a)"

text \<open>
  Small worlds for the concrete cases below: a square World of \<open>n\<close> by \<open>n\<close> cells with
  horizon \<open>len\<close> at clock \<open>t\<close>, holding the given agents and no others, registered in the
  order given (so their ids are 1, 2, ...). The steps of an agent look only at the
  cells around it, so what happens in such a world happens in the same surroundings
  in one of 53 by 53 cells.
\<close>

definition small_world :: "int \<Rightarrow> int \<Rightarrow> int \<Rightarrow> nat list \<Rightarrow> agent list \<Rightarrow> world" where
  "small_world n len t rs as =
     (case for_each register as (empty_world n n 50 len rs) of
        Inr w \<Rightarrow> w\<lparr>time := t\<rparr>
      | Inl _ \<Rightarrow> empty_world n n 50 len rs)"

text \<open>What a result holds under an id: the boat, the port, if it is a world and has one.\<close>

definition boat_at :: "nat \<Rightarrow> error + world \<Rightarrow> boat option" where
  "boat_at i r =
     (case r of
        Inr w \<Rightarrow> (case agents w i of Some (Boat b) \<Rightarrow> Some b | _ \<Rightarrow> None)
      | Inl _ \<Rightarrow> None)"

definition home_at :: "nat \<Rightarrow> error + world \<Rightarrow> home option" where
  "home_at i r =
     (case r of
        Inr w \<Rightarrow> (case agents w i of Some (Home h) \<Rightarrow> Some h | _ \<Rightarrow> None)
      | Inl _ \<Rightarrow> None)"

text \<open>
  A port, four Ocean cells, a new Small boat at \<open>(1, 0)\<close> and five new lobsters in the
  cell \<open>(1, 1)\<close>.
\<close>

definition lobster_row_world :: world where
  "lobster_row_world = small_world 6 10 0 []
     [Home (Home_init (0, 0) ''big''), Ocean (0, 0), Ocean (0, 1), Ocean (1, 0), Ocean (1, 1),
      Boat (Boat_init (1, 0) 1),
      Lobster (Lobster_init (1, 1) 0), Lobster (Lobster_init (1, 1) 0),
      Lobster (Lobster_init (1, 1) 0), Lobster (Lobster_init (1, 1) 0),
      Lobster (Lobster_init (1, 1) 0)]"

text \<open>
  A Small boat in Search that holds 4 lobsters, and a Wander lobster two rows above it.
\<close>

definition full_boat_world :: world where
  "full_boat_world = small_world 6 10 0 []
     [Home (Home_init (0, 0) ''big''), Ocean (0, 0), Ocean (0, 1), Ocean (1, 0), Ocean (1, 1),
      Boat ((Boat_init (1, 0) 1)\<lparr>b_amount := 4\<rparr>), Lobster (Lobster_init (1, 2) 0)]"

text \<open>The world of a result; the empty world stands for an exception.\<close>

definition the_world :: "error + world \<Rightarrow> world" where
  "the_world r = (case r of Inr w \<Rightarrow> w | Inl _ \<Rightarrow> empty_world 0 0 0 0 [])"

text \<open>The exception of a result, if it is one.\<close>

definition error_of :: "error + world \<Rightarrow> error option" where
  "error_of r = (case r of Inl e \<Rightarrow> Some e | Inr _ \<Rightarrow> None)"

text \<open>
  A world of 27 rows with a port and a new Small boat in row 26.
\<close>

definition deep_world :: world where
  "deep_world = small_world 27 10 0 []
     [Home (Home_init (0, 0) ''big''), Boat (Boat_init (0, 26) 1)]"

text \<open>
  A Small boat that is unable, in Return and at its port, holding 2 lobsters.
\<close>

definition docked_world :: world where
  "docked_world = small_world 6 10 0 []
     [Home (Home_init (0, 0) ''big''), Ocean (0, 0), Ocean (0, 1), Ocean (1, 0), Ocean (1, 1),
      Boat ((Boat_init (0, 0) 1)\<lparr>b_amount := 2, b_state := Return, b_unable := True\<rparr>)]"

text \<open>A world of five rows with a port, four Ocean cells and a new Big boat in row 0.\<close>

definition big_boat_world :: world where
  "big_boat_world = small_world 5 10 0 []
     [Home (Home_init (0, 0) ''big''), Ocean (0, 0), Ocean (0, 1), Ocean (1, 0), Ocean (1, 1),
      Boat ((Boat_init (1, 0) 1)\<lparr>b_size := Big\<rparr>)]"

text \<open>The lobster and the heat spot a result holds under an id.\<close>

definition lobster_at :: "nat \<Rightarrow> error + world \<Rightarrow> lobster option" where
  "lobster_at i r =
     (case r of
        Inr w \<Rightarrow> (case agents w i of Some (Lobster l) \<Rightarrow> Some l | _ \<Rightarrow> None)
      | Inl _ \<Rightarrow> None)"







text \<open>
  The count the spec describes for \<^verbatim>\<open>count_lobster\<close>: the lobsters in state Wander among
  the occupants of all the cells of the grid.
\<close>

definition live_lobsters_on_grid :: "world \<Rightarrow> int" where
  "live_lobsters_on_grid w =
     int (length (filter (is_wander_lobster w) (concat (map (grid w) (coord_iter w)))))"

text \<open>A world of six rows with one new lobster in the top row, row 5.\<close>

definition top_row_world :: world where
  "top_row_world = small_world 6 10 0 [] [Lobster (Lobster_init (1, 5) 0)]"

text \<open>
  A world with horizon 2 and, as in the small world with five lobsters, a new Small boat
  next to them.
\<close>

definition horizon_world :: world where
  "horizon_world = small_world 6 2 0 []
     [Home (Home_init (0, 0) ''big''), Ocean (0, 0), Ocean (0, 1), Ocean (1, 0), Ocean (1, 1),
      Boat (Boat_init (1, 0) 1),
      Lobster (Lobster_init (1, 1) 0), Lobster (Lobster_init (1, 1) 0),
      Lobster (Lobster_init (1, 1) 0), Lobster (Lobster_init (1, 1) 0),
      Lobster (Lobster_init (1, 1) 0)]"

text \<open>
  A port, a new heat spot at \<open>(0, 3)\<close>, a new Small boat at \<open>(1, 2)\<close> and a new lobster at
  \<open>(1, 4)\<close>, registered in this order, as \<^verbatim>\<open>__init__\<close> registers ports, heat spots,
  boats and lobsters.
\<close>

definition chase_world :: world where
  "chase_world = small_world 7 10 0 [0, 50]
     [Home (Home_init (0, 0) ''big''), Heat_Spot (Heat_Spot_init (0, 3)),
      Boat (Boat_init (1, 2) 1), Lobster (Lobster_init (1, 4) 0)]"

text \<open>A world whose \<open>height\<close> and \<open>width\<close> are both \<open>n\<close>.\<close>

definition square :: "int \<Rightarrow> world \<Rightarrow> bool" where
  "square n w \<longleftrightarrow> height w = n \<and> width w = n"

section \<open>Moving agents changes positions only\<close>

lemma moved_refl: "moved w w"
  by (simp add: moved_def)

lemma moved_trans: "moved w v \<Longrightarrow> moved v u \<Longrightarrow> moved w u"
  by (simp add: moved_def)

lemma strip_set_agent_pos: "strip (set_agent_pos p a) = strip a"
  by (cases a) simp_all

lemma for_each_invariant:
  assumes "for_each f xs w = Inr w'" and "P w"
    and "\<And>x v v'. x \<in> set xs \<Longrightarrow> P v \<Longrightarrow> f x v = Inr v' \<Longrightarrow> P v'"
  shows "P w'"
  using assms
proof (induction xs arbitrary: w)
  case Nil
  then show ?case by simp
next
  case (Cons x xs)
  from Cons.prems(1) obtain v where fx: "f x w = Inr v" and rest: "for_each f xs v = Inr w'"
    by (auto split: sum.splits)
  have "P v" using Cons.prems(3)[OF _ Cons.prems(2) fx] by simp
  with rest Cons.IH Cons.prems(3) show ?case by (metis list.set_intros(2))
qed

lemma move_agent_moved: "move_agent i p w = Inr w' \<Longrightarrow> moved w w'"
  by (auto simp: move_agent_def moved_def frame_def Let_def strip_set_agent_pos
      split: if_splits option.splits)

lemma upd_lobster_moved: "(\<And>l. l_state (f l) = l_state l) \<Longrightarrow> moved w (upd_lobster i f w)"
  by (auto simp: upd_lobster_def moved_def frame_def Lobster_init_def split: option.splits agent.splits)

lemma upd_heat_spot_moved: "moved w (upd_heat_spot i f w)"
  by (auto simp: upd_heat_spot_def moved_def frame_def split: option.splits agent.splits)

lemma next_random_moved: "moved w (snd (next_random w))"
  by (auto simp: next_random_def moved_def frame_def split: list.splits)

lemma random_choice_moved: "random_choice xs w = Inr (x, w') \<Longrightarrow> moved w w'"
  using next_random_moved by (auto simp: random_choice_def split: if_splits)

lemma random_below_quarter_moved: "moved w (snd (random_below_quarter w))"
  using next_random_moved by (simp add: random_below_quarter_def random_random_def)

lemma neighbor_move_moved: "neighbor_move n i w = Inr w' \<Longrightarrow> moved w w'"
proof (induction n arbitrary: i w w')
  case 0
  then show ?case by simp
next
  case (Suc n)
  from Suc.prems obtain l where l: "agents w i = Some (Lobster l)"
    by (auto split: option.splits agent.splits)
  let ?body = "\<lambda>j w'. if row_of w' i < row_of w' j then neighbor_move n j w' else Inr w'"
  from Suc.prems l obtain w1 where
    loop: "for_each ?body (filter (is_lobster w) (get_neighbors w (l_pos l) (l_moore l) False)) w = Inr w1"
    by (auto split: sum.splits)
  have m1: "moved w w1"
  proof (rule for_each_invariant[OF loop, where P = "moved w"])
    show "moved w w" by (rule moved_refl)
  next
    fix x v v'
    assume "moved w v" and "?body x v = Inr v'"
    then show "moved w v'"
      using Suc.IH moved_trans by (auto split: if_splits)
  qed
  let ?w2 = "snd (random_below_quarter w1)"
  have m2: "moved w1 ?w2" by (rule random_below_quarter_moved)
  from Suc.prems l loop have "w' = ?w2 \<or> (\<exists>p. move_agent i p ?w2 = Inr w')"
    by (auto simp: Let_def split: if_splits option.splits)
  then have "moved ?w2 w'"
    using moved_refl move_agent_moved by auto
  with m1 m2 show ?case using moved_trans by blast
qed


lemma Heat_Spot_step_moved: "Heat_Spot_step i w = Inr w' \<Longrightarrow> moved w w'"
proof -
  assume a: "Heat_Spot_step i w = Inr w'"
  then obtain h0 where h0: "agents w i = Some (Heat_Spot h0)"
    by (auto simp: Heat_Spot_step_def split: option.splits agent.splits)
  let ?w1 = "w\<lparr>agents := (agents w)(i \<mapsto> Heat_Spot (h0\<lparr>hs_turn := hs_turn h0 + 1\<rparr>))\<rparr>"
  have m1: "moved w ?w1" using h0 by (auto simp: moved_def frame_def)
  from a h0 have "w' = ?w1 \<or> (\<exists>p f w2. move_agent i p ?w1 = Inr w2 \<and> w' = upd_heat_spot i f w2)"
    by (auto simp: Heat_Spot_step_def Let_def split: if_splits sum.splits)
  then have "moved ?w1 w'"
    by (auto intro: moved_refl moved_trans[OF move_agent_moved upd_heat_spot_moved])
  with m1 show ?thesis by (rule moved_trans)
qed

lemma move_north_moved: "move_north n i w = Inr w' \<Longrightarrow> moved w w'"
proof -
  assume a: "move_north n i w = Inr w'"
  show ?thesis
  proof (cases "w' = w")
    case True
    then show ?thesis by (simp add: moved_refl)
  next
    case False
    with a obtain xs :: "pos list" and x w1 w2
      where "random_choice xs w = Inr (x, w1)" "move_agent i x w1 = Inr w2"
      "neighbor_move n i w2 = Inr w'"
      by (auto simp: move_north_def Let_def split: option.splits agent.splits if_splits sum.splits)
    then have "moved w w1" "moved w1 w2" "moved w2 w'"
      by (auto dest: random_choice_moved move_agent_moved neighbor_move_moved)
    then show ?thesis by (meson moved_trans)
  qed
qed

lemma Lobster_step_moved: "Lobster_step n i w = Inr w' \<Longrightarrow> moved w w'"
proof -
  assume a: "Lobster_step n i w = Inr w'"
  let ?f = "\<lambda>l. l\<lparr>l_turn := l_turn l + 1\<rparr>"
  let ?g = "\<lambda>l. l\<lparr>l_count := l_count l + 1, l_counts := l_counts l @ [l_count l + 1]\<rparr>"
  from a obtain w1 where "move_north n i (upd_lobster i ?f w) = Inr w1" and "w' = upd_lobster i ?g w1"
    by (auto simp: Lobster_step_def split: option.splits agent.splits sum.splits)
  then have "moved w (upd_lobster i ?f w)" "moved (upd_lobster i ?f w) w1" "moved w1 w'"
    by (auto simp: upd_lobster_moved dest: move_north_moved)
  then show ?thesis by (meson moved_trans)
qed

lemma random_move_try_Inr_moved: "random_move_try i w = Inr w' \<Longrightarrow> moved w w'"
proof -
  assume "random_move_try i w = Inr w'"
  then obtain xs :: "pos list" and x w1
    where "random_choice xs w = Inr (x, w1)" "move_agent i x w1 = Inr w'"
    by (auto simp: random_move_try_def split: option.splits agent.splits sum.splits)
  then have "moved w w1" "moved w1 w'"
    by (auto dest: random_choice_moved move_agent_moved)
  then show ?thesis by (rule moved_trans)
qed

lemma random_move_try_Inl_moved: "random_move_try i w = Inl w' \<Longrightarrow> moved w w'"
proof (cases "w' = w")
  case True
  then show ?thesis by (simp add: moved_refl)
next
  case False
  assume "random_move_try i w = Inl w'"
  with False obtain xs :: "pos list" and x where "random_choice xs w = Inr (x, w')"
    by (auto simp: random_move_try_def split: option.splits agent.splits sum.splits)
  then show ?thesis by (rule random_choice_moved)
qed

lemma random_move_moved:
  assumes "random_move i w = Some w'"
  shows "moved w w'"
proof (rule random_move.raw_induct[where P = "\<lambda>i w w'. moved w w'", OF _ assms])
  fix rm :: "nat \<Rightarrow> world \<Rightarrow> world option" and i w w'
  assume IH: "\<And>i w y. rm i w = Some y \<Longrightarrow> moved w y"
    and eq: "(case random_move_try i w of Inl w' \<Rightarrow> rm i w' | Inr w' \<Rightarrow> Some w') = Some w'"
  show "moved w w'"
  proof (cases "random_move_try i w")
    case (Inl v)
    with eq have "rm i v = Some w'" by simp
    then have "moved v w'" by (rule IH)
    moreover have "moved w v" using Inl by (rule random_move_try_Inl_moved)
    ultimately show ?thesis using moved_trans by blast
  next
    case (Inr v)
    with eq have "v = w'" by simp
    with Inr show ?thesis using random_move_try_Inr_moved by blast
  qed
qed

lemma smart_move_moved: "smart_move i w = Inr w' \<Longrightarrow> moved w w'"
  by (auto simp: smart_move_def split: option.splits agent.splits dest: move_agent_moved)

lemma return_home_moved: "return_home i w = Inr w' \<Longrightarrow> moved w w'"
proof -
  assume a: "return_home i w = Inr w'"
  then obtain xs :: "pos list" and x w1
    where "random_choice xs w = Inr (x, w1)" "move_agent i x w1 = Inr w'"
    by (auto simp: return_home_def Let_def split: option.splits agent.splits sum.splits if_splits)
  then have "moved w w1" "moved w1 w'"
    by (auto dest: random_choice_moved move_agent_moved)
  then show ?thesis by (rule moved_trans)
qed

section \<open>How agents evolve\<close>

lemma boat_evolves_refl: "boat_evolves b b"
  by (simp add: boat_evolves_def)

lemma boat_evolves_trans: "boat_evolves a b \<Longrightarrow> boat_evolves b c \<Longrightarrow> boat_evolves a c"
  by (auto simp: boat_evolves_def)

lemma evolves_refl: "evolves a a"
  by (cases a) (simp_all add: boat_evolves_refl)

lemma evolves_same_kind:
  "evolves a b \<Longrightarrow> (case a of Ocean _ \<Rightarrow> (\<exists>p. b = Ocean p) | Lobster _ \<Rightarrow> (\<exists>l. b = Lobster l)
     | Boat _ \<Rightarrow> (\<exists>x. b = Boat x) | Home _ \<Rightarrow> (\<exists>h. b = Home h) | Heat_Spot _ \<Rightarrow> (\<exists>h. b = Heat_Spot h))"
  by (cases a; cases b) simp_all

lemma evolves_trans: "evolves a b \<Longrightarrow> evolves b c \<Longrightarrow> evolves a c"
proof (cases a)
  case (Boat x)
  assume "evolves a b" "evolves b c"
  with Boat show ?thesis
    by (cases b; cases c) (auto intro: boat_evolves_trans)
next
  case (Home x)
  assume "evolves a b" "evolves b c"
  with Home show ?thesis by (cases b; cases c) auto
next
  case (Lobster x)
  assume "evolves a b" "evolves b c"
  with Lobster show ?thesis by (cases b; cases c) auto
next
  case (Ocean x)
  assume "evolves a b" "evolves b c"
  with Ocean show ?thesis by (cases b; cases c) auto
next
  case (Heat_Spot x)
  assume "evolves a b" "evolves b c"
  with Heat_Spot show ?thesis by (cases b; cases c) auto
qed

lemma world_evolves_refl: "world_evolves w w"
  by (simp add: world_evolves_def option.rel_refl evolves_refl)

lemma world_evolves_trans: "world_evolves w v \<Longrightarrow> world_evolves v u \<Longrightarrow> world_evolves w u"
  unfolding world_evolves_def
proof
  fix j
  assume a: "\<forall>j. rel_option evolves (agents w j) (agents v j)"
    and b: "\<forall>j. rel_option evolves (agents v j) (agents u j)"
  from a b have "rel_option evolves (agents w j) (agents v j)" "rel_option evolves (agents v j) (agents u j)"
    by auto
  then show "rel_option evolves (agents w j) (agents u j)"
    by (cases "agents w j"; cases "agents v j"; cases "agents u j") (auto intro: evolves_trans)
qed

lemma boat_strip_eq: "b'\<lparr>b_pos := (0, 0)\<rparr> = b\<lparr>b_pos := (0, 0)\<rparr> \<Longrightarrow> b' = b\<lparr>b_pos := b_pos b'\<rparr>"
  by (cases b, cases b') simp

lemma home_strip_eq: "h'\<lparr>h_pos := (0, 0)\<rparr> = h\<lparr>h_pos := (0, 0)\<rparr> \<Longrightarrow> h' = h\<lparr>h_pos := h_pos h'\<rparr>"
  by (cases h, cases h') simp

lemma boat_evolves_pos: "boat_evolves b (b\<lparr>b_pos := p\<rparr>)"
  by (simp add: boat_evolves_def boat_ok_def)

lemma strip_evolves: "strip a' = strip a \<Longrightarrow> evolves a a'"
proof (cases a)
  case (Boat b)
  assume s: "strip a' = strip a"
  with Boat obtain b' where a': "a' = Boat b'" by (cases a') auto
  with s Boat have "b' = b\<lparr>b_pos := b_pos b'\<rparr>" by (simp add: boat_strip_eq)
  then have "boat_evolves b b'" using boat_evolves_pos[of b "b_pos b'"] by simp
  with Boat a' show ?thesis by simp
next
  case (Home h)
  assume s: "strip a' = strip a"
  with Home obtain h' where a': "a' = Home h'" by (cases a') auto
  with s Home have "h' = h\<lparr>h_pos := h_pos h'\<rparr>" by (simp add: home_strip_eq)
  then have "h_amount h' = h_amount h \<and> h_size h' = h_size h"
    by (metis home.select_convs(2,3) home.surjective home.update_convs(1))
  with Home a' show ?thesis by simp
next
  case (Lobster l)
  assume s: "strip a' = strip a"
  with Lobster show ?thesis by (cases a') (auto simp: Lobster_init_def)
next
  case (Ocean p)
  assume s: "strip a' = strip a"
  with Ocean show ?thesis by (cases a') auto
next
  case (Heat_Spot h)
  assume s: "strip a' = strip a"
  with Heat_Spot show ?thesis by (cases a') auto
qed

lemma moved_world_evolves: "moved w w' \<Longrightarrow> world_evolves w w'"
  unfolding moved_def world_evolves_def
proof (intro allI)
  fix j
  assume "frame w' = frame w \<and> (\<forall>j. map_option strip (agents w' j) = map_option strip (agents w j))"
  then have "map_option strip (agents w' j) = map_option strip (agents w j)" by simp
  then show "rel_option evolves (agents w j) (agents w' j)"
    by (cases "agents w j"; cases "agents w' j") (auto intro: strip_evolves)
qed

lemma moved_boat:
  assumes "moved w w'" and "agents w i = Some (Boat b)"
  shows "\<exists>p. agents w' i = Some (Boat (b\<lparr>b_pos := p\<rparr>))"
proof -
  from assms have s: "map_option strip (agents w' i) = Some (strip (Boat b))"
    by (simp add: moved_def)
  then obtain a' where a': "agents w' i = Some a'" and "strip a' = strip (Boat b)" by auto
  then obtain b' where "a' = Boat b'" and "b'\<lparr>b_pos := (0, 0)\<rparr> = b\<lparr>b_pos := (0, 0)\<rparr>"
    by (cases a') auto
  then have "a' = Boat (b\<lparr>b_pos := b_pos b'\<rparr>)" using boat_strip_eq by auto
  with a' show ?thesis by blast
qed

lemma moved_frame: "moved w w' \<Longrightarrow> frame w' = frame w"
  by (simp add: moved_def)

lemma moved_others: "moved w w' \<Longrightarrow> map_option strip (agents w' j) = map_option strip (agents w j)"
  by (simp add: moved_def)

section \<open>Boat.step\<close>

lemma others_evolve_refl: "others_evolve i w w"
  by (simp add: others_evolve_def option.rel_refl evolves_refl)

lemma others_evolve_trans: "others_evolve i w v \<Longrightarrow> others_evolve i v u \<Longrightarrow> others_evolve i w u"
  unfolding others_evolve_def
proof (intro allI impI)
  fix j
  assume a: "\<forall>j. j \<noteq> i \<longrightarrow> rel_option evolves (agents w j) (agents v j)"
    and b: "\<forall>j. j \<noteq> i \<longrightarrow> rel_option evolves (agents v j) (agents u j)" and j: "j \<noteq> i"
  then have "rel_option evolves (agents w j) (agents v j)" "rel_option evolves (agents v j) (agents u j)"
    by auto
  then show "rel_option evolves (agents w j) (agents u j)"
    by (cases "agents w j"; cases "agents v j"; cases "agents u j") (auto intro: evolves_trans)
qed

lemma world_evolves_others: "world_evolves w w' \<Longrightarrow> others_evolve i w w'"
  by (simp add: world_evolves_def others_evolve_def)

lemma moved_others_evolve: "moved w w' \<Longrightarrow> others_evolve i w w'"
  by (simp add: moved_world_evolves world_evolves_others)

lemma others_evolve_upd_self: "others_evolve i w (w\<lparr>agents := (agents w)(i \<mapsto> a)\<rparr>)"
  by (simp add: others_evolve_def option.rel_refl evolves_refl)

lemma others_evolve_upd_boat: "others_evolve i w (upd_boat i f w)"
  by (auto simp: others_evolve_def upd_boat_def option.rel_refl evolves_refl
      split: option.splits agent.splits)

lemma frame_counts: "frame w' = frame w \<Longrightarrow> big_count w' = big_count w \<and> small_count w' = small_count w"
  by (simp add: frame_def)

lemma frame_upd_boat: "frame (upd_boat i f w) = frame w"
  by (simp add: upd_boat_def frame_def split: option.splits agent.splits)

lemma frame_upd_lobster: "frame (upd_lobster i f w) = frame w"
  by (simp add: upd_lobster_def frame_def split: option.splits agent.splits)

lemma move_agent_agents:
  "move_agent i p w = Inr w' \<Longrightarrow> \<exists>a. agents w i = Some a \<and> agents w' = (agents w)(i \<mapsto> set_agent_pos p a)"
  by (auto simp: move_agent_def Let_def split: if_splits option.splits)

lemma catch_False: "catch i w = Inr (False, w') \<Longrightarrow> w' = w"
  by (auto simp: catch_def split: option.splits agent.splits sum.splits)

lemma catch_True:
  assumes "catch i w = Inr (True, w')" and "agents w i = Some (Boat b)"
  shows "\<exists>n l w1. is_wander_lobster w n \<and> agents w n = Some (Lobster l) \<and> move_agent i (l_pos l) w = Inr w1
     \<and> w' = upd_lobster n (\<lambda>l. l\<lparr>l_state := Caught\<rparr>) (upd_boat i (\<lambda>b. b\<lparr>b_amount := b_amount b + 1\<rparr>) w1)"
proof -
  from assms obtain n where n: "find (is_wander_lobster w) (get_neighbors w (b_pos b) (b_moore b) True) = Some n"
    by (auto simp: catch_def split: option.splits)
  then have wl: "is_wander_lobster w n" by (auto simp: find_Some_iff)
  then obtain l where l: "agents w n = Some (Lobster l)"
    by (auto simp: is_wander_lobster_def split: option.splits agent.splits)
  from assms n l obtain w1 where "move_agent i (l_pos l) w = Inr w1"
    and "w' = upd_lobster n (\<lambda>l. l\<lparr>l_state := Caught\<rparr>) (upd_boat i (\<lambda>b. b\<lparr>b_amount := b_amount b + 1\<rparr>) w1)"
    by (auto simp: catch_def split: sum.splits)
  with wl l show ?thesis by blast
qed

lemma catch_effect:
  assumes "catch i w = Inr (c, w')" and "agents w i = Some (Boat b)"
  shows "(\<exists>p. agents w' i = Some (Boat (b\<lparr>b_pos := p, b_amount := b_amount b + (if c then 1 else 0)\<rparr>)))
     \<and> others_evolve i w w' \<and> frame w' = frame w"
proof (cases c)
  case False
  with assms have "w' = w" using catch_False by simp
  moreover have "b\<lparr>b_pos := b_pos b, b_amount := b_amount b + 0\<rparr> = b" by simp
  ultimately show ?thesis using assms(2) False others_evolve_refl by (metis (full_types))
next
  case True
  with assms have "catch i w = Inr (True, w')" by simp
  from catch_True[OF this assms(2)] obtain n l w1 where n: "agents w n = Some (Lobster l)"
    and mv: "move_agent i (l_pos l) w = Inr w1"
    and w': "w' = upd_lobster n (\<lambda>l. l\<lparr>l_state := Caught\<rparr>) (upd_boat i (\<lambda>b. b\<lparr>b_amount := b_amount b + 1\<rparr>) w1)"
    by blast
  from n assms(2) have ni: "n \<noteq> i" by auto
  from mv assms(2) have a1: "agents w1 = (agents w)(i \<mapsto> Boat (b\<lparr>b_pos := l_pos l\<rparr>))"
    by (auto dest: move_agent_agents)
  let ?w2 = "upd_boat i (\<lambda>b. b\<lparr>b_amount := b_amount b + 1\<rparr>) w1"
  have a2: "agents ?w2 = (agents w)(i \<mapsto> Boat (b\<lparr>b_pos := l_pos l, b_amount := b_amount b + 1\<rparr>))"
    using a1 by (simp add: upd_boat_def)
  have a3: "agents w' = (agents ?w2)(n \<mapsto> Lobster (l\<lparr>l_state := Caught\<rparr>))"
    using w' a2 n ni by (simp add: upd_lobster_def)
  have "agents w' i = Some (Boat (b\<lparr>b_pos := l_pos l, b_amount := b_amount b + 1\<rparr>))"
    using a3 a2 ni by simp
  then have "\<exists>p. agents w' i = Some (Boat (b\<lparr>b_pos := p, b_amount := b_amount b + (if c then 1 else 0)\<rparr>))"
    using True by (intro exI[of _ "l_pos l"]) simp
  moreover have "others_evolve i w w'"
    unfolding others_evolve_def using a3 a2 n by (auto simp: option.rel_refl evolves_refl)
  moreover have "frame w' = frame w"
    using w' mv by (simp add: frame_upd_lobster frame_upd_boat move_agent_moved moved_frame)
  ultimately show ?thesis by blast
qed

lemma Boat_step_is_boat: "Boat_step i w = Inr w' \<Longrightarrow> \<exists>b. agents w i = Some (Boat b)"
  by (auto simp: Boat_step_def split: option.splits agent.splits)

lemma Boat_step_Search_eligible:
  assumes step: "Boat_step i w = Inr w'" and b: "agents w i = Some (Boat b)"
    and st: "b_state b = Search" and el: "eligible b"
  shows "\<exists>b'. agents w' i = Some (Boat b') \<and> Boat_trans w b b' w' \<and> others_evolve i w w'"
proof -
  let ?b1 = "b\<lparr>b_turn := b_turn b + 1\<rparr>"
  let ?w1 = "w\<lparr>agents := (agents w)(i \<mapsto> Boat ?b1)\<rparr>"
  have f1: "frame ?w1 = frame w" by (simp add: frame_def)
  have o1: "others_evolve i w ?w1" by (rule others_evolve_upd_self)
  have b1: "agents ?w1 i = Some (Boat ?b1)" by simp
  from el have el': "(b_size b = Small \<and> snd (b_pos b) < 26) \<or> b_size b = Big"
    by (simp add: eligible_def)
  let ?mv = "if snd (b_pos b) < 4 + b_turn ?b1 div 5 then smart_move i ?w1
             else (case random_move i ?w1 of None \<Rightarrow> Inl Hang | Some w' \<Rightarrow> Inr w')"
  let ?fin = "\<lambda>c w3. if c then (case agents w3 i of
                   Some (Boat b3) \<Rightarrow>
                     if able_to_return b3 then Inr (upd_boat i (\<lambda>b. b\<lparr>b_state := Return\<rparr>) w3)
                     else Inr w3
                 | _ \<Rightarrow> Inl AttributeError)
               else Inr w3"
  have eq: "Boat_step i w =
      (case ?mv of Inl e \<Rightarrow> Inl e
       | Inr w2 \<Rightarrow> (case catch i w2 of Inl e \<Rightarrow> Inl e | Inr (c, w3) \<Rightarrow> ?fin c w3))"
    using b st el' by (simp add: Boat_step_def Let_def)
  from step eq obtain w2 where mv2: "?mv = Inr w2"
    by (cases ?mv) auto
  from step eq mv2 obtain c w3 where ct: "catch i w2 = Inr (c, w3)"
    by (cases "catch i w2") auto
  from step eq mv2 ct have fin': "?fin c w3 = Inr w'" by simp
  from mv2 have mv: "smart_move i ?w1 = Inr w2 \<or> random_move i ?w1 = Some w2"
    by (auto split: if_splits option.splits)
  from mv have m2: "moved ?w1 w2" using smart_move_moved random_move_moved by blast
  from moved_boat[OF m2 b1] obtain p where b2: "agents w2 i = Some (Boat (?b1\<lparr>b_pos := p\<rparr>))" by blast
  from catch_effect[OF ct b2] obtain q where
    b3: "agents w3 i = Some (Boat (?b1\<lparr>b_pos := q, b_amount := b_amount b + (if c then 1 else 0)\<rparr>))"
    and o3: "others_evolve i w2 w3" and f3: "frame w3 = frame w2"
    by auto
  let ?b3 = "?b1\<lparr>b_pos := q, b_amount := b_amount b + (if c then 1 else 0)\<rparr>"
  have o13: "others_evolve i w w3"
    using o1 moved_others_evolve[OF m2] o3 others_evolve_trans by blast
  have f13: "frame w3 = frame w" using f1 moved_frame[OF m2] f3 by simp
  show ?thesis
  proof (cases "c \<and> able_to_return ?b3")
    case True
    with fin' b3 have w': "w' = upd_boat i (\<lambda>b. b\<lparr>b_state := Return\<rparr>) w3" by auto
    then have a': "agents w' i = Some (Boat (?b3\<lparr>b_state := Return\<rparr>))"
      using b3 by (simp add: upd_boat_def)
    have "frame w' = frame w" using w' f13 by (simp add: frame_upd_boat)
    then have cnt: "big_count w' = big_count w \<and> small_count w' = small_count w"
      by (rule frame_counts)
    have ab: "able_to_return (?b3\<lparr>b_state := Return\<rparr>)"
      using True by (auto simp: able_to_return_def split: if_splits)
    have "Boat_trans w b (?b3\<lparr>b_state := Return\<rparr>) w'"
      unfolding Boat_trans_def using st el True cnt ab by simp
    moreover have "others_evolve i w w'"
      using o13 w' others_evolve_upd_boat others_evolve_trans by blast
    ultimately show ?thesis using a' by blast
  next
    case False
    with fin' b3 have w': "w' = w3" by (auto split: if_splits)
    have "frame w' = frame w" using w' f13 by simp
    then have cnt: "big_count w' = big_count w \<and> small_count w' = small_count w"
      by (rule frame_counts)
    have "b_amount ?b3 = b_amount b \<and> b_state ?b3 = Search
        \<or> b_amount ?b3 = b_amount b + 1 \<and> b_state ?b3 = (if able_to_return ?b3 then Return else Search)"
    proof (cases c)
      case True
      with False have "\<not> able_to_return ?b3" by simp
      with True st show ?thesis by simp
    next
      case False
      with st show ?thesis by simp
    qed
    then have "Boat_trans w b ?b3 w'"
      unfolding Boat_trans_def using st el cnt by simp
    with b3 w' o13 show ?thesis by simp

  qed
qed

lemma Boat_step_Search_not_eligible:
  assumes step: "Boat_step i w = Inr w'" and b: "agents w i = Some (Boat b)"
    and st: "b_state b = Search" and el: "\<not> eligible b"
  shows "\<exists>b'. agents w' i = Some (Boat b') \<and> Boat_trans w b b' w' \<and> others_evolve i w w'"
proof -
  let ?b' = "b\<lparr>b_turn := b_turn b + 1, b_unable := True, b_state := Return\<rparr>"
  from el have el': "\<not> ((b_size b = Small \<and> snd (b_pos b) < 26) \<or> b_size b = Big)"
    by (simp add: eligible_def)
  from step b st el' have w': "w' = w\<lparr>agents := (agents w)(i \<mapsto> Boat ?b')\<rparr>"
    by (simp add: Boat_step_def Let_def upd_boat_def)
  then have "agents w' i = Some (Boat ?b')" by simp
  moreover have "Boat_trans w b ?b' w'"
    unfolding Boat_trans_def using st el w' by simp
  moreover have "others_evolve i w w'" using w' others_evolve_upd_self by simp
  ultimately show ?thesis by blast
qed

lemma Boat_step_Return_home:
  assumes step: "Boat_step i w = Inr w'" and b: "agents w i = Some (Boat b)"
    and st: "b_state b \<noteq> Search" and hm: "at_home w b"
  shows "\<exists>b'. agents w' i = Some (Boat b') \<and> Boat_trans w b b' w' \<and> others_evolve i w w'"
proof -
  let ?b1 = "b\<lparr>b_turn := b_turn b + 1\<rparr>"
  let ?w1 = "w\<lparr>agents := (agents w)(i \<mapsto> Boat ?b1)\<rparr>"
  let ?w2 = "if \<not> b_unable b then upd_boat i (\<lambda>b. b\<lparr>b_state := Search\<rparr>) ?w1 else ?w1"
  let ?w3 = "if b_size b = Big then ?w2\<lparr>big_count := big_count ?w2 + b_amount b\<rparr>
             else ?w2\<lparr>small_count := small_count ?w2 + b_amount b\<rparr>"
  let ?b2 = "if b_unable b then ?b1 else ?b1\<lparr>b_state := Search\<rparr>"
  let ?b' = "?b2\<lparr>b_amount := 0\<rparr>"
  from st have ret: "b_state b = Return" by (cases "b_state b") auto
  from hm obtain h where h: "agents w (b_home b) = Some h" and pos: "b_pos b = agent_pos h"
    by (auto simp: at_home_def split: option.splits)
  have "\<exists>h1. agents ?w1 (b_home b) = Some h1 \<and> b_pos b = agent_pos h1"
    using h pos b by auto
  with step b st have w': "w' = upd_boat i (\<lambda>b. b\<lparr>b_amount := 0\<rparr>) ?w3"
    by (auto simp: Boat_step_def Let_def)
  have a2: "agents ?w2 = (agents w)(i \<mapsto> Boat ?b2)"
    by (simp add: upd_boat_def)
  have a3: "agents ?w3 = (agents w)(i \<mapsto> Boat ?b2)"
    using a2 by simp
  have a': "agents w' = (agents w)(i \<mapsto> Boat ?b')"
    unfolding w' upd_boat_def using a3 by simp
  have c2: "big_count ?w2 = big_count w \<and> small_count ?w2 = small_count w"
    by (simp add: upd_boat_def)
  have cb: "big_count w' = big_count w + (if b_size b = Big then b_amount b else 0)"
    unfolding w' using c2 by (simp add: upd_boat_def split: option.splits agent.splits)
  have cs: "small_count w' = small_count w + (if b_size b = Big then 0 else b_amount b)"
    unfolding w' using c2 by (simp add: upd_boat_def split: option.splits agent.splits)
  have "Boat_trans w b ?b' w'"
    unfolding Boat_trans_def using st hm cb cs ret by simp
  moreover have "others_evolve i w w'"
    using a' by (simp add: others_evolve_def option.rel_refl evolves_refl)
  ultimately show ?thesis using a' by auto
qed

lemma Boat_step_Return_away:
  assumes step: "Boat_step i w = Inr w'" and b: "agents w i = Some (Boat b)"
    and st: "b_state b \<noteq> Search" and hm: "\<not> at_home w b"
  shows "\<exists>b'. agents w' i = Some (Boat b') \<and> Boat_trans w b b' w' \<and> others_evolve i w w'"
proof -
  let ?b1 = "b\<lparr>b_turn := b_turn b + 1\<rparr>"
  let ?w1 = "w\<lparr>agents := (agents w)(i \<mapsto> Boat ?b1)\<rparr>"
  from st have ret: "b_state b = Return" by (cases "b_state b") auto
  have b1: "agents ?w1 i = Some (Boat ?b1)" by simp
  have hm1: "\<And>h1. agents ?w1 (b_home b) = Some h1 \<Longrightarrow> b_pos b \<noteq> agent_pos h1"
    using hm b by (auto simp: at_home_def split: if_splits)
  have eq: "Boat_step i w = (case agents ?w1 (b_home b) of
        Some hm \<Rightarrow> if b_pos b = agent_pos hm then Inl AttributeError else return_home i ?w1
      | None \<Rightarrow> Inl AttributeError)"
  proof (cases "agents ?w1 (b_home b)")
    case None
    with b st show ?thesis by (simp add: Boat_step_def Let_def)
  next
    case (Some h1)
    with hm1 have "b_pos b \<noteq> agent_pos h1" by simp
    with Some b st show ?thesis by (simp add: Boat_step_def Let_def)
  qed
  have rh: "return_home i ?w1 = Inr w'"
  proof (cases "agents ?w1 (b_home b)")
    case None
    with eq step show ?thesis by simp
  next
    case (Some h1)
    with eq step show ?thesis by (simp split: if_splits)
  qed
  then have m: "moved ?w1 w'" by (rule return_home_moved)
  from moved_boat[OF m b1] obtain p where b': "agents w' i = Some (Boat (?b1\<lparr>b_pos := p\<rparr>))" by blast
  have "frame w' = frame w" using moved_frame[OF m] by (simp add: frame_def)
  then have cnt: "big_count w' = big_count w \<and> small_count w' = small_count w"
    by (rule frame_counts)
  have "Boat_trans w b (?b1\<lparr>b_pos := p\<rparr>) w'"
    unfolding Boat_trans_def using st hm cnt ret by simp
  moreover have "others_evolve i w w'"
    using others_evolve_upd_self[of i w "Boat ?b1"] moved_others_evolve[OF m] others_evolve_trans by blast
  ultimately show ?thesis using b' by blast
qed

lemma Boat_step_effect:
  assumes "Boat_step i w = Inr w'"
  shows "\<exists>b b'. agents w i = Some (Boat b) \<and> agents w' i = Some (Boat b')
           \<and> Boat_trans w b b' w' \<and> others_evolve i w w'"
proof -
  from assms obtain b where b: "agents w i = Some (Boat b)"
    using Boat_step_is_boat by blast
  have "\<exists>b'. agents w' i = Some (Boat b') \<and> Boat_trans w b b' w' \<and> others_evolve i w w'"
  proof (cases "b_state b = Search")
    case True
    then show ?thesis
      using Boat_step_Search_eligible[OF assms b] Boat_step_Search_not_eligible[OF assms b]
      by (cases "eligible b") auto
  next
    case False
    then show ?thesis
      using Boat_step_Return_home[OF assms b] Boat_step_Return_away[OF assms b]
      by (cases "at_home w b") auto
  qed
  with b show ?thesis by blast
qed

lemma capacity_able_to_return: "able_to_return b \<longleftrightarrow> b_amount b = capacity (b_size b)"
  by (cases "b_size b") (auto simp: able_to_return_def capacity_def)

lemma Boat_trans_evolves: "Boat_trans w b b' w' \<Longrightarrow> boat_evolves b b'"
  unfolding boat_evolves_def
proof (intro conjI impI)
  assume t: "Boat_trans w b b' w'"
  show "b_size b' = b_size b" "b_home b' = b_home b" using t by (simp_all add: Boat_trans_def)
  show "b_unable b'" if "b_unable b"
    using t that by (auto simp: Boat_trans_def split: if_splits)
  show "b_state b' = Return" if "b_unable b \<and> b_state b = Return"
    using t that by (auto simp: Boat_trans_def split: if_splits)
  show "boat_ok b'" if ok: "boat_ok b"
  proof -
    have sz: "b_size b' = b_size b" using t by (simp add: Boat_trans_def)
    have pos: "0 < capacity (b_size b)" by (cases "b_size b") (simp_all add: capacity_def)
    show ?thesis
    proof (cases "b_state b = Search")
      case True
      with ok have lt: "b_amount b < capacity (b_size b)" and ge: "0 \<le> b_amount b"
        by (simp_all add: boat_ok_def)
      from t True have "b_amount b' = b_amount b \<and> (b_state b' = Search \<or> b_state b' = Return)
          \<or> b_amount b' = b_amount b + 1 \<and> b_state b' = (if able_to_return b' then Return else Search)"
        by (auto simp: Boat_trans_def split: if_splits)
      then show ?thesis
        using lt ge sz by (auto simp: boat_ok_def capacity_able_to_return split: if_splits)
    next
      case False
      with t have "b_amount b' = 0 \<or> b_amount b' = b_amount b \<and> b_state b' = Return"
        by (auto simp: Boat_trans_def split: if_splits)
      then show ?thesis using ok sz pos by (auto simp: boat_ok_def)
    qed
  qed
qed

lemma Boat_step_world_evolves:
  assumes "Boat_step i w = Inr w'"
  shows "world_evolves w w'"
proof -
  from Boat_step_effect[OF assms] obtain b b' where b: "agents w i = Some (Boat b)"
    and b': "agents w' i = Some (Boat b')" and t: "Boat_trans w b b' w'"
    and o: "others_evolve i w w'"
    by blast
  have "rel_option evolves (agents w j) (agents w' j)" for j
  proof (cases "j = i")
    case True
    with b b' Boat_trans_evolves[OF t] show ?thesis by simp
  next
    case False
    with o show ?thesis by (simp add: others_evolve_def)
  qed
  then show ?thesis by (simp add: world_evolves_def)
qed

section \<open>World.step and runs\<close>

lemma agent_step_world_evolves: "agent_step i w = Inr w' \<Longrightarrow> world_evolves w w'"
  unfolding agent_step_def
  by (auto split: option.splits agent.splits
      intro: world_evolves_refl Boat_step_world_evolves
        moved_world_evolves[OF Heat_Spot_step_moved] moved_world_evolves[OF Lobster_step_moved])

lemma for_each_agent_step_world_evolves:
  assumes "for_each agent_step is w = Inr w'"
  shows "world_evolves w w'"
proof (rule for_each_invariant[OF assms, where P = "world_evolves w"])
  show "world_evolves w w" by (rule world_evolves_refl)
next
  fix x v v'
  assume "world_evolves w v" and "agent_step x v = Inr v'"
  then show "world_evolves w v'"
    using agent_step_world_evolves world_evolves_trans by blast
qed

lemma schedule_step_world_evolves: "schedule_step w = Inr w' \<Longrightarrow> world_evolves w w'"
proof -
  assume "schedule_step w = Inr w'"
  then obtain v where v: "for_each agent_step (schedule w) w = Inr v" and "w' = v\<lparr>time := time v + 1\<rparr>"
    by (auto simp: schedule_step_def split: sum.splits)
  then have "agents w' = agents v" by simp
  with for_each_agent_step_world_evolves[OF v] show ?thesis by (simp add: world_evolves_def)
qed

lemma count_lobster_agents: "count_lobster w = Inr w' \<Longrightarrow> agents w' = agents w"
proof -
  assume a: "count_lobster w = Inr w'"
  have "agents w' = agents (w\<lparr>lobster_count := 0\<rparr>)"
    by (rule for_each_invariant[OF a[unfolded count_lobster_def], where P = "\<lambda>v. agents v = agents (w\<lparr>lobster_count := 0\<rparr>)"])
      (auto split: sum.splits)
  then show ?thesis by simp
qed

lemma bank_all_agents: "agents (bank_all w) = agents w"
proof -
  have "agents (fold (\<lambda>i w'. case agents w' i of Some (Boat b) \<Rightarrow> in_storage b w' | _ \<Rightarrow> w') is w) = agents w" for "is"
    by (induction "is" arbitrary: w) (auto simp: in_storage_def split: option.splits agent.splits)
  then show ?thesis by (simp add: bank_all_def)
qed

lemma World_step_world_evolves: "World_step w = Inr w' \<Longrightarrow> world_evolves w w'"
proof -
  assume a: "World_step w = Inr w'"
  then obtain w1 w2 where s: "schedule_step w = Inr w1" and c: "count_lobster w1 = Inr w2"
    and w': "w' = collect w2 \<or> w' = (collect (bank_all (collect w2)))\<lparr>running := False\<rparr>"
    by (auto simp: World_step_def Let_def split: sum.splits if_splits)
  from w' have "agents w' = agents w2"
    by (auto simp: collect_def bank_all_agents)
  then have "agents w' = agents w1" using count_lobster_agents[OF c] by simp
  with schedule_step_world_evolves[OF s] show ?thesis by (simp add: world_evolves_def)
qed

lemma run_world_evolves: "run n w = Inr w' \<Longrightarrow> world_evolves w w'"
proof (induction n arbitrary: w)
  case 0
  then show ?case by (simp add: world_evolves_refl)
next
  case (Suc n)
  then obtain v where "World_step w = Inr v" "run n v = Inr w'"
    by (auto split: sum.splits)
  then show ?case
    using World_step_world_evolves Suc.IH world_evolves_trans by blast
qed

section \<open>World.\_\_init\_\_\<close>

lemma set_agent_pos_same: "set_agent_pos (agent_pos a) a = a"
  by (cases a) simp_all

lemma as_built_set_agent_pos: "as_built (set_agent_pos p a) = as_built a"
  by (cases a) (simp_all add: as_built_def)

lemma register_all_agents:
  assumes "register a w = Inr w'" and "all_agents P w" and "P a"
  shows "all_agents P w'"
proof -
  from assms(1) have "agents w' = (agents w)(current_id w + 1 \<mapsto> a)"
    by (auto simp: register_def place_agent_def Let_def set_agent_pos_same split: sum.splits if_splits)
  with assms(2,3) show ?thesis by (auto simp: all_agents_def)
qed

lemma randint_agents: "randint a b w = Inr (x, w') \<Longrightarrow> agents w' = agents w"
  by (auto simp: randint_def next_random_def split: if_splits list.splits)

lemma random_random_agents: "agents (snd (random_random w)) = agents w"
  by (auto simp: random_random_def next_random_def split: list.splits)

lemma new_boat_as_built:
  assumes "new_boat w = Inr w'" and "all_agents as_built w"
  shows "all_agents as_built w'"
proof -
  from assms(1) obtain x0 w1 y0 w2 b where r1: "randint 0 (width w - 1) w = Inr (x0, w1)"
    and r2: "randint 0 3 w1 = Inr (y0, w2)"
    and reg: "register (Boat b) (snd (random_random (snd (random_random w2)))) = Inr w'"
    and b: "b_amount b = 0 \<and> b_state b = Search \<and> \<not> b_unable b"
    by (auto simp: new_boat_def Let_def Boat_init_def split: sum.splits if_splits)
  have "agents (snd (random_random (snd (random_random w2)))) = agents w"
    using randint_agents[OF r1] randint_agents[OF r2] by (simp add: random_random_agents)
  with assms(2) have "all_agents as_built (snd (random_random (snd (random_random w2))))"
    by (simp add: all_agents_def)
  from register_all_agents[OF reg this] b show ?thesis by (simp add: as_built_def)
qed

lemma new_lobster_as_built:
  assumes "new_lobster w = Inr w'" and "all_agents as_built w"
  shows "all_agents as_built w'"
proof -
  from assms(1) obtain x0 w1 y0 w2 t w3 where r1: "randint 0 (height w - 1) w = Inr (x0, w1)"
    and r2: "randint 4 (height w - 1) w1 = Inr (y0, w2)"
    and r3: "randint 0 10 w2 = Inr (t, w3)"
    and reg: "register (Lobster (Lobster_init (x0, y0) t)) w3 = Inr w'"
    by (auto simp: new_lobster_def split: sum.splits)
  have "agents w3 = agents w"
    using randint_agents[OF r1] randint_agents[OF r2] randint_agents[OF r3] by simp
  with assms(2) have "all_agents as_built w3" by (simp add: all_agents_def)
  from register_all_agents[OF reg this] show ?thesis by (simp add: as_built_def)
qed

lemma World_init_as_built:
  assumes "World_init hgt wid num_lobsters num_boats dens len rs = Inr w"
  shows "all_agents as_built w"
proof -
  let ?w0 = "empty_world hgt wid dens len rs"
  from assms obtain w1 w2 w3 w4 w5 where
    s1: "for_each (\<lambda>p. register (Home (Home_init p ''big''))) [(13, 0), (26, 0), (39, 0)] ?w0 = Inr w1"
    and s2: "for_each (\<lambda>p. register (Ocean p)) (coord_iter w1) w1 = Inr w2"
    and s3: "for_each (\<lambda>i. register (Heat_Spot (Heat_Spot_init (i, 3)))) [0..width w2 - 1] w2 = Inr w3"
    and s4: "for_each (\<lambda>_. new_boat) [0..<num_boats] w3 = Inr w4"
    and s5: "for_each (\<lambda>_. new_lobster) [0..<num_lobsters] w4 = Inr w5"
    and w: "w = w5\<lparr>running := True\<rparr>"
    unfolding World_init_def by (auto split: sum.splits)
  have a0: "all_agents as_built ?w0" by (simp add: all_agents_def empty_world_def)
  have a1: "all_agents as_built w1"
    proof (rule for_each_invariant[OF s1, where P = "all_agents as_built"])
    show "all_agents as_built ?w0" by (rule a0)
  qed (auto intro: register_all_agents simp: as_built_def Home_init_def)
  have a2: "all_agents as_built w2"
    proof (rule for_each_invariant[OF s2, where P = "all_agents as_built"])
    show "all_agents as_built w1" by (rule a1)
  qed (auto intro: register_all_agents simp: as_built_def)
  have a3: "all_agents as_built w3"
    proof (rule for_each_invariant[OF s3, where P = "all_agents as_built"])
    show "all_agents as_built w2" by (rule a2)
  qed (auto intro: register_all_agents simp: as_built_def)
  have a4: "all_agents as_built w4"
    proof (rule for_each_invariant[OF s4, where P = "all_agents as_built"])
    show "all_agents as_built w3" by (rule a3)
  qed (auto intro: new_boat_as_built)
  have a5: "all_agents as_built w5"
    proof (rule for_each_invariant[OF s5, where P = "all_agents as_built"])
    show "all_agents as_built w4" by (rule a4)
  qed (auto intro: new_lobster_as_built)
  with w show ?thesis by (simp add: all_agents_def)
qed

lemma for_each_succeeds:
  assumes "Q w" and "\<And>x v. x \<in> set xs \<Longrightarrow> Q v \<Longrightarrow> \<exists>v'. f x v = Inr v' \<and> Q v'"
  shows "\<exists>w'. for_each f xs w = Inr w' \<and> Q w'"
  using assms
proof (induction xs arbitrary: w)
  case Nil
  then show ?case by simp
next
  case (Cons x xs)
  from Cons.prems(2)[of x w] Cons.prems(1) obtain v where v: "f x w = Inr v" and q: "Q v"
    by auto
  from Cons.IH[OF q] Cons.prems(2) obtain w' where "for_each f xs v = Inr w'" and "Q w'"
    by (metis list.set_intros(2))
  with v show ?case by auto
qed

lemma register_succeeds:
  assumes "square n w" and "0 \<le> fst (agent_pos a)" and "fst (agent_pos a) < n"
    and "0 \<le> snd (agent_pos a)" and "snd (agent_pos a) < n"
  shows "\<exists>w'. register a w = Inr w' \<and> square n w'"
  using assms
  by (auto simp: register_def place_agent_def out_of_bounds_def grid_width_def grid_height_def
      square_def Let_def)

lemma randint_succeeds:
  assumes "a \<le> b"
  shows "\<exists>x w'. randint a b w = Inr (x, w') \<and> a \<le> x \<and> x \<le> b \<and> height w' = height w
     \<and> width w' = width w \<and> density w' = density w"
proof -
  let ?x = "a + int (fst (next_random w)) mod (b - a + 1)"
  from assms have "0 < b - a + 1" by simp
  then have "0 \<le> int (fst (next_random w)) mod (b - a + 1)"
    and "int (fst (next_random w)) mod (b - a + 1) < b - a + 1"
    by (rule pos_mod_sign, rule pos_mod_bound)
  then have "a \<le> ?x \<and> ?x \<le> b" by linarith
  moreover have "height (snd (next_random w)) = height w \<and> width (snd (next_random w)) = width w
      \<and> density (snd (next_random w)) = density w"
    by (simp add: next_random_def split: list.splits)
  ultimately show ?thesis using assms by (simp add: randint_def)
qed

lemma random_random_square: "square n (snd (random_random w)) = square n w"
  by (simp add: random_random_def next_random_def square_def split: list.splits)

lemma new_boat_succeeds:
  assumes sq: "square n w" and n: "4 \<le> n"
  shows "\<exists>w'. new_boat w = Inr w' \<and> square n w'"
proof -
  from sq have wd: "width w = n" by (simp add: square_def)
  from randint_succeeds[of 0 "width w - 1" w] wd n obtain x0 w1
    where r1: "randint 0 (width w - 1) w = Inr (x0, w1)" and x0: "0 \<le> x0" "x0 \<le> n - 1"
      and s1: "height w1 = height w \<and> width w1 = width w"
    by auto
  from randint_succeeds[of 0 3 w1] obtain y0 w2
    where r2: "randint 0 3 w1 = Inr (y0, w2)" and y0: "0 \<le> y0" "y0 \<le> 3"
      and s2: "height w2 = height w1 \<and> width w2 = width w1"
    by auto
  let ?w4 = "snd (random_random (snd (random_random w2)))"
  have sq4: "square n ?w4" using sq s1 s2 by (simp add: random_random_square) (simp add: square_def)
  have "\<exists>w'. register (Boat b) ?w4 = Inr w' \<and> square n w'" if "b_pos b = (x0, y0)" for b
    using register_succeeds[OF sq4, of "Boat b"] that x0 y0 n by simp
  then show ?thesis
    using r1 r2 by (simp add: new_boat_def Let_def Boat_init_def)
qed

lemma new_lobster_succeeds:
  assumes sq: "square n w" and n: "5 \<le> n"
  shows "\<exists>w'. new_lobster w = Inr w' \<and> square n w'"
proof -
  from sq have ht: "height w = n" by (simp add: square_def)
  from randint_succeeds[of 0 "height w - 1" w] ht n obtain x0 w1
    where r1: "randint 0 (height w - 1) w = Inr (x0, w1)" and x0: "0 \<le> x0" "x0 \<le> n - 1"
      and s1: "height w1 = height w \<and> width w1 = width w"
    by auto
  from randint_succeeds[of 4 "height w - 1" w1] ht n obtain y0 w2
    where r2: "randint 4 (height w - 1) w1 = Inr (y0, w2)" and y0: "4 \<le> y0" "y0 \<le> n - 1"
      and s2: "height w2 = height w1 \<and> width w2 = width w1"
    by auto
  from randint_succeeds[of 0 10 w2] obtain t w3
    where r3: "randint 0 10 w2 = Inr (t, w3)"
      and s3: "height w3 = height w2 \<and> width w3 = width w2"
    by auto
  have sq3: "square n w3" using sq s1 s2 s3 by (simp add: square_def)
  have "\<exists>w'. register (Lobster (Lobster_init (x0, y0) t)) w3 = Inr w' \<and> square n w'"
    using register_succeeds[OF sq3, of "Lobster (Lobster_init (x0, y0) t)"] x0 y0
    by (simp add: Lobster_init_def)
  then show ?thesis
    using r1 r2 r3 by (simp add: new_lobster_def)
qed

lemma coord_iter_in_grid:
  assumes "square n w" and "p \<in> set (coord_iter w)"
  shows "0 \<le> fst p \<and> fst p < n \<and> 0 \<le> snd p \<and> snd p < n"
  using assms by (auto simp: coord_iter_def square_def grid_width_def grid_height_def)

lemma World_init_succeeds:
  assumes n: "40 \<le> n"
  shows "\<exists>w. World_init n n num_lobsters num_boats dens len rs = Inr w"
proof -
  let ?w0 = "empty_world n n dens len rs"
  have sq0: "square n ?w0" by (simp add: square_def empty_world_def)
  have "\<exists>w1. for_each (\<lambda>p. register (Home (Home_init p ''big''))) [(13, 0), (26, 0), (39, 0)] ?w0 = Inr w1
      \<and> square n w1"
  proof (rule for_each_succeeds[where Q = "square n", OF sq0])
    fix x :: pos and v
    assume "x \<in> set [(13, 0), (26, 0), (39, 0)]" and v: "square n v"
    then have "0 \<le> fst x \<and> fst x < n \<and> 0 \<le> snd x \<and> snd x < n" using n by auto
    then show "\<exists>v'. register (Home (Home_init x ''big'')) v = Inr v' \<and> square n v'"
      using register_succeeds[OF v, of "Home (Home_init x ''big'')"] by (simp add: Home_init_def)
  qed
  then obtain w1 where s1: "for_each (\<lambda>p. register (Home (Home_init p ''big''))) [(13, 0), (26, 0), (39, 0)] ?w0 = Inr w1"
    and sq1: "square n w1"
    by blast
  have "\<exists>w2. for_each (\<lambda>p. register (Ocean p)) (coord_iter w1) w1 = Inr w2 \<and> square n w2"
  proof (rule for_each_succeeds[where Q = "square n", OF sq1])
    fix x v
    assume "x \<in> set (coord_iter w1)" and v: "square n v"
    then have "0 \<le> fst x \<and> fst x < n \<and> 0 \<le> snd x \<and> snd x < n"
      using coord_iter_in_grid[OF sq1] by blast
    then show "\<exists>v'. register (Ocean x) v = Inr v' \<and> square n v'"
      using register_succeeds[OF v, of "Ocean x"] by simp
  qed
  then obtain w2 where s2: "for_each (\<lambda>p. register (Ocean p)) (coord_iter w1) w1 = Inr w2"
    and sq2: "square n w2"
    by blast
  have "\<exists>w3. for_each (\<lambda>i. register (Heat_Spot (Heat_Spot_init (i, 3)))) [0..width w2 - 1] w2 = Inr w3
      \<and> square n w3"
  proof (rule for_each_succeeds[where Q = "square n", OF sq2])
    fix x v
    assume "x \<in> set [0..width w2 - 1]" and v: "square n v"
    then have "0 \<le> x \<and> x < n" using sq2 by (simp add: square_def)
    then show "\<exists>v'. register (Heat_Spot (Heat_Spot_init (x, 3))) v = Inr v' \<and> square n v'"
      using register_succeeds[OF v, of "Heat_Spot (Heat_Spot_init (x, 3))"] n
      by (simp add: Heat_Spot_init_def)
  qed
  then obtain w3 where s3: "for_each (\<lambda>i. register (Heat_Spot (Heat_Spot_init (i, 3)))) [0..width w2 - 1] w2 = Inr w3"
    and sq3: "square n w3"
    by blast
  have "\<exists>w4. for_each (\<lambda>_. new_boat) [0..<num_boats] w3 = Inr w4 \<and> square n w4"
    by (rule for_each_succeeds[where Q = "square n", OF sq3]) (use n new_boat_succeeds in auto)
  then obtain w4 where s4: "for_each (\<lambda>_. new_boat) [0..<num_boats] w3 = Inr w4" and sq4: "square n w4"
    by blast
  have "\<exists>w5. for_each (\<lambda>_. new_lobster) [0..<num_lobsters] w4 = Inr w5 \<and> square n w5"
    by (rule for_each_succeeds[where Q = "square n", OF sq4]) (use n new_lobster_succeeds in auto)
  then obtain w5 where s5: "for_each (\<lambda>_. new_lobster) [0..<num_lobsters] w4 = Inr w5"
    by blast
  from s1 s2 s3 s4 s5 show ?thesis by (simp add: World_init_def)
qed

section \<open>The ports hold nothing (C10)\<close>

lemma boat_at_Some:
  "boat_at i r = Some b \<Longrightarrow> \<exists>w. r = Inr w \<and> agents w i = Some (Boat b)"
  by (auto simp: boat_at_def split: sum.splits option.splits agent.splits)

lemma home_at_Some:
  "home_at i r = Some h \<Longrightarrow> \<exists>w. r = Inr w \<and> agents w i = Some (Home h)"
  by (auto simp: home_at_def split: sum.splits option.splits agent.splits)

lemmas small_world_defs =
  small_world_def empty_world_def register_def place_agent_def out_of_bounds_def grid_width_def
  grid_height_def Home_init_def Boat_init_def Lobster_init_def Heat_Spot_init_def Let_def

lemma lobster_row_world_agents:
  "agents lobster_row_world =
     [1 \<mapsto> Home (Home_init (0, 0) ''big''), 2 \<mapsto> Ocean (0, 0), 3 \<mapsto> Ocean (0, 1),
      4 \<mapsto> Ocean (1, 0), 5 \<mapsto> Ocean (1, 1), 6 \<mapsto> Boat (Boat_init (1, 0) 1),
      7 \<mapsto> Lobster (Lobster_init (1, 1) 0), 8 \<mapsto> Lobster (Lobster_init (1, 1) 0),
      9 \<mapsto> Lobster (Lobster_init (1, 1) 0), 10 \<mapsto> Lobster (Lobster_init (1, 1) 0),
      11 \<mapsto> Lobster (Lobster_init (1, 1) 0)]"
  by (simp add: lobster_row_world_def small_world_defs eval_nat_numeral)

lemma lobster_row_world_as_built: "all_agents as_built lobster_row_world"
  by (auto simp: all_agents_def lobster_row_world_agents as_built_def Home_init_def Boat_init_def
      split: if_splits)

lemma as_built_boat_ok: "as_built (Boat b) \<Longrightarrow> boat_ok b"
  by (cases "b_size b") (auto simp: as_built_def boat_ok_def capacity_def)

lemma run_boat:
  assumes "run n w0 = Inr w" and "agents w i = Some (Boat b)"
  shows "\<exists>b0. agents w0 i = Some (Boat b0) \<and> boat_evolves b0 b"
proof -
  from run_world_evolves[OF assms(1)] have "rel_option evolves (agents w0 i) (agents w i)"
    by (simp add: world_evolves_def)
  with assms(2) obtain a0 where a0: "agents w0 i = Some a0" and "evolves a0 (Boat b)"
    by (cases "agents w0 i") auto
  then show ?thesis by (cases a0) auto
qed

lemma run_home:
  assumes "run n w0 = Inr w" and "agents w i = Some (Home h)"
  shows "\<exists>h0. agents w0 i = Some (Home h0) \<and> h_amount h = h_amount h0"
proof -
  from run_world_evolves[OF assms(1)] have "rel_option evolves (agents w0 i) (agents w i)"
    by (simp add: world_evolves_def)
  with assms(2) obtain a0 where a0: "agents w0 i = Some a0" and "evolves a0 (Home h)"
    by (cases "agents w0 i") auto
  then show ?thesis by (cases a0) auto
qed

text \<open>
  C10. For every Home (port) and every tick of every run, the port's own accumulated
  amount stays 0. A run starts from a world whose ports hold 0, as \<^verbatim>\<open>World.__init__\<close>
  builds it (lemma \<open>World_init_as_built\<close>), and makes any number of calls of
  \<^verbatim>\<open>World.step\<close>; no step writes the \<open>amount\<close> of a Home (boats bank into \<open>big_count\<close> and
  \<open>small_count\<close> of the World, and nothing calls \<^verbatim>\<open>Home.add\<close>), so it is 0 after every
  tick.
\<close>

theorem port_amount_stays_zero:
  "(\<forall>hgt wid num_lobsters num_boats dens len rs w0.
      World_init hgt wid num_lobsters num_boats dens len rs = Inr w0 \<longrightarrow> all_agents as_built w0)
   \<and> (\<forall>w0 n w i h. all_agents as_built w0 \<and> run n w0 = Inr w \<and> agents w i = Some (Home h) \<longrightarrow>
        h_amount h = 0)"
proof (intro conjI allI impI)
  fix hgt wid num_lobsters num_boats dens len rs w0
  assume "World_init hgt wid num_lobsters num_boats dens len rs = Inr w0"
  then show "all_agents as_built w0" by (rule World_init_as_built)
next
  fix w0 n w i h
  assume a: "all_agents as_built w0 \<and> run n w0 = Inr w \<and> agents w i = Some (Home h)"
  then obtain h0 where h0: "agents w0 i = Some (Home h0)" and eq: "h_amount h = h_amount h0"
    using run_home by blast
  from a h0 have "as_built (Home h0)" by (simp add: all_agents_def)
  with eq show "h_amount h = 0" by (simp add: as_built_def)
qed

lemma lobster_row_run3:
  "home_at 1 (run 3 lobster_row_world) = Some (Home_init (0, 0) ''big'')"
  by code_simp

text \<open>
  The hypotheses of C10 at a concrete run: three ticks of the small world above, with
  a boat that catches lobsters next to the port with id 1.
\<close>

theorem port_amount_stays_zero_witness:
  "(\<exists>w0. World_init 40 40 300 82 60 30 [] = Inr w0 \<and> all_agents as_built w0)
   \<and> all_agents as_built lobster_row_world
   \<and> home_at 1 (run 3 lobster_row_world) = Some (Home_init (0, 0) ''big'')
   \<and> h_amount (Home_init (0, 0) ''big'') = 0"
proof -
  note claim = port_amount_stays_zero
  obtain w0 where i: "World_init 40 40 300 82 60 30 [] = Inr w0"
    using World_init_succeeds[of 40 300 82 60 30 "[]"] by auto
  with claim have "all_agents as_built w0" by blast
  with i have c0: "\<exists>w0. World_init 40 40 300 82 60 30 [] = Inr w0 \<and> all_agents as_built w0"
    by blast
  from home_at_Some[OF lobster_row_run3] obtain w where r: "run 3 lobster_row_world = Inr w"
    and h: "agents w 1 = Some (Home (Home_init (0, 0) ''big''))"
    by blast
  from claim lobster_row_world_as_built r h have "h_amount (Home_init (0, 0) ''big'') = 0"
    by blast
  with c0 lobster_row_world_as_built lobster_row_run3 show ?thesis by simp
qed

section \<open>The held catch and the capacity (C2)\<close>

lemma run_boat_ok:
  assumes "all_agents as_built w0" and "run n w0 = Inr w" and "agents w i = Some (Boat b)"
  shows "boat_ok b"
proof -
  from run_boat[OF assms(2,3)] obtain b0 where b0: "agents w0 i = Some (Boat b0)"
    and ev: "boat_evolves b0 b"
    by blast
  from assms(1) b0 have "as_built (Boat b0)" by (simp add: all_agents_def)
  then have "boat_ok b0" by (rule as_built_boat_ok)
  with ev show ?thesis by (simp add: boat_evolves_def)
qed

lemma Boat_step_catch_to_capacity:
  assumes "Boat_step i w = Inr w'" and "agents w i = Some (Boat b)" and "agents w' i = Some (Boat b')"
    and "b_state b = Search" and "b_amount b' = b_amount b + 1"
    and "b_amount b' = capacity (b_size b')"
  shows "b_state b' = Return"
proof -
  from Boat_step_effect[OF assms(1)] assms(2,3) have t: "Boat_trans w b b' w'" by auto
  from t assms(4,5) have "b_state b' = (if able_to_return b' then Return else Search)"
    by (auto simp: Boat_trans_def split: if_splits)
  with assms(6) show ?thesis by (simp add: capacity_able_to_return)
qed

text \<open>
  C2, as amended. For every Boat after every tick of a run from a world as
  \<^verbatim>\<open>World.__init__\<close> builds it, the held catch amount lies in the closed range from 0 to
  the capacity (5 for Small, 10 for Big), and is below the capacity whenever the boat
  is in Search. And whenever a step of a boat in Search raises its amount by one to
  the capacity, the boat is in Return at the end of that same step.
\<close>

theorem boat_amount_within_capacity:
  "(\<forall>hgt wid num_lobsters num_boats dens len rs w0.
      World_init hgt wid num_lobsters num_boats dens len rs = Inr w0 \<longrightarrow> all_agents as_built w0)
   \<and> (\<forall>w0 n w i b. all_agents as_built w0 \<and> run n w0 = Inr w \<and> agents w i = Some (Boat b) \<longrightarrow>
       0 \<le> b_amount b \<and> b_amount b \<le> capacity (b_size b)
       \<and> (b_state b = Search \<longrightarrow> b_amount b < capacity (b_size b)))
   \<and> (\<forall>i w w' b b'. Boat_step i w = Inr w' \<and> agents w i = Some (Boat b)
         \<and> agents w' i = Some (Boat b') \<and> b_state b = Search
         \<and> b_amount b' = b_amount b + 1 \<and> b_amount b' = capacity (b_size b') \<longrightarrow>
       b_state b' = Return)"
proof (intro conjI allI impI)
  fix hgt wid num_lobsters num_boats dens len rs w0
  assume "World_init hgt wid num_lobsters num_boats dens len rs = Inr w0"
  then show "all_agents as_built w0" by (rule World_init_as_built)
next
  fix w0 n w i b
  assume a: "all_agents as_built w0 \<and> run n w0 = Inr w \<and> agents w i = Some (Boat b)"
  then have ok: "boat_ok b" using run_boat_ok by blast
  from ok show "0 \<le> b_amount b" by (simp add: boat_ok_def)
  from ok show "b_amount b \<le> capacity (b_size b)" by (simp add: boat_ok_def)
  show "b_amount b < capacity (b_size b)" if "b_state b = Search"
    using ok that by (simp add: boat_ok_def)
next
  fix i w w' b b'
  assume "Boat_step i w = Inr w' \<and> agents w i = Some (Boat b)
         \<and> agents w' i = Some (Boat b') \<and> b_state b = Search
         \<and> b_amount b' = b_amount b + 1 \<and> b_amount b' = capacity (b_size b')"
  then show "b_state b' = Return" using Boat_step_catch_to_capacity by blast
qed

text \<open>
  C2 as stated fails: the amount does reach the capacity. In the small world with five
  lobsters the new Small boat catches one lobster per tick; after the fifth tick it
  holds 5, which is not below its capacity 5, and stays so until it is back at its port.
\<close>

theorem boat_amount_reaches_capacity:
  "boat_at 6 (run 5 lobster_row_world) =
     Some \<lparr>b_home = 1, b_pos = (1, 1), b_size = Small, b_state = Return, b_moore = True,
           b_amount = 5, b_turn = 5, b_unable = False\<rparr>
   \<and> \<not> (5 < capacity Small)"
proof -
  have "boat_at 6 (run 5 lobster_row_world) =
     Some \<lparr>b_home = 1, b_pos = (1, 1), b_size = Small, b_state = Return, b_moore = True,
           b_amount = 5, b_turn = 5, b_unable = False\<rparr>"
    by code_simp
  then show ?thesis by (simp add: capacity_def)
qed

lemma full_boat_world_agents:
  "agents full_boat_world =
     [1 \<mapsto> Home (Home_init (0, 0) ''big''), 2 \<mapsto> Ocean (0, 0), 3 \<mapsto> Ocean (0, 1),
      4 \<mapsto> Ocean (1, 0), 5 \<mapsto> Ocean (1, 1), 6 \<mapsto> Boat ((Boat_init (1, 0) 1)\<lparr>b_amount := 4\<rparr>),
      7 \<mapsto> Lobster (Lobster_init (1, 2) 0)]"
  by (simp add: full_boat_world_def small_world_defs eval_nat_numeral)

lemma full_boat_world_step:
  "boat_at 6 (Boat_step 6 full_boat_world) =
     Some \<lparr>b_home = 1, b_pos = (1, 2), b_size = Small, b_state = Return, b_moore = True,
           b_amount = 5, b_turn = 1, b_unable = False\<rparr>"
  by code_simp

lemma lobster_row_run2:
  "boat_at 6 (run 2 lobster_row_world) =
     Some \<lparr>b_home = 1, b_pos = (1, 1), b_size = Small, b_state = Search, b_moore = True,
           b_amount = 2, b_turn = 2, b_unable = False\<rparr>"
  by code_simp

text \<open>
  The hypotheses of the amended C2 at concrete inputs: the run of two ticks of the small
  world with five lobsters, and the step of the boat that holds 4 and catches its fifth.
\<close>

theorem boat_amount_within_capacity_witness:
  "(\<exists>w0. World_init 40 40 300 82 60 30 [] = Inr w0 \<and> all_agents as_built w0)
   \<and> all_agents as_built lobster_row_world
   \<and> boat_at 6 (run 2 lobster_row_world) =
       Some \<lparr>b_home = 1, b_pos = (1, 1), b_size = Small, b_state = Search, b_moore = True,
             b_amount = 2, b_turn = 2, b_unable = False\<rparr>
   \<and> (0::int) \<le> 2 \<and> 2 \<le> capacity Small \<and> 2 < capacity Small
   \<and> agents full_boat_world 6 = Some (Boat ((Boat_init (1, 0) 1)\<lparr>b_amount := 4\<rparr>))
   \<and> boat_at 6 (Boat_step 6 full_boat_world) =
       Some \<lparr>b_home = 1, b_pos = (1, 2), b_size = Small, b_state = Return, b_moore = True,
             b_amount = 5, b_turn = 1, b_unable = False\<rparr>
   \<and> capacity Small = 5"
proof -
  let ?b2 = "\<lparr>b_home = 1, b_pos = (1, 1), b_size = Small, b_state = Search, b_moore = True,
             b_amount = 2, b_turn = 2, b_unable = False\<rparr>"
  let ?b5 = "\<lparr>b_home = 1, b_pos = (1, 2), b_size = Small, b_state = Return, b_moore = True,
             b_amount = 5, b_turn = 1, b_unable = False\<rparr>"
  note claim = boat_amount_within_capacity
  obtain w0 where i: "World_init 40 40 300 82 60 30 [] = Inr w0"
    using World_init_succeeds[of 40 300 82 60 30 "[]"] by auto
  with claim have "all_agents as_built w0" by blast
  with i have c0: "\<exists>w0. World_init 40 40 300 82 60 30 [] = Inr w0 \<and> all_agents as_built w0"
    by blast
  from boat_at_Some[OF lobster_row_run2] obtain w where r: "run 2 lobster_row_world = Inr w"
    and b: "agents w 6 = Some (Boat ?b2)"
    by blast
  from claim lobster_row_world_as_built r b
  have "0 \<le> b_amount ?b2 \<and> b_amount ?b2 \<le> capacity (b_size ?b2)
       \<and> (b_state ?b2 = Search \<longrightarrow> b_amount ?b2 < capacity (b_size ?b2))"
    by blast
  then have first: "(0::int) \<le> 2 \<and> 2 \<le> capacity Small \<and> 2 < capacity Small" by simp
  have b4: "agents full_boat_world 6 = Some (Boat ((Boat_init (1, 0) 1)\<lparr>b_amount := 4\<rparr>))"
    by (simp add: full_boat_world_agents)
  from boat_at_Some[OF full_boat_world_step] obtain w' where s: "Boat_step 6 full_boat_world = Inr w'"
    and b': "agents w' 6 = Some (Boat ?b5)"
    by blast
  have cap: "capacity Small = 5" by (simp add: capacity_def)
  with c0 lobster_row_world_as_built lobster_row_run2 first b4 full_boat_world_step
  show ?thesis by simp
qed

section \<open>Unable boats (C8)\<close>

lemma Boat_step_sets_unable:
  assumes "agents w i = Some (Boat b)" and "b_state b = Search" and "b_size b = Small"
    and "26 \<le> snd (b_pos b)"
  shows "\<exists>w' b'. Boat_step i w = Inr w' \<and> agents w' i = Some (Boat b') \<and> b_unable b'
           \<and> b_state b' = Return"
  using assms by (simp add: Boat_step_def Let_def upd_boat_def)

lemma Boat_step_at_home_returns:
  assumes "agents w i = Some (Boat b)" and "b_state b = Return" and "at_home w b"
  shows "\<exists>w'. Boat_step i w = Inr w'"
proof -
  let ?w1 = "w\<lparr>agents := (agents w)(i \<mapsto> Boat (b\<lparr>b_turn := b_turn b + 1\<rparr>))\<rparr>"
  from assms(3) obtain h where h: "agents w (b_home b) = Some h" and pos: "b_pos b = agent_pos h"
    by (auto simp: at_home_def split: option.splits)
  have "\<exists>h1. agents ?w1 (b_home b) = Some h1 \<and> b_pos b = agent_pos h1"
    using h pos assms(1) by auto
  with assms(1,2) show ?thesis
    by (auto simp: Boat_step_def Let_def)
qed

lemma Boat_step_docked:
  assumes b: "agents w i = Some (Boat b)" and st: "b_state b = Return" and un: "b_unable b"
    and hm: "at_home w b"
  shows "\<exists>w' b'. Boat_step i w = Inr w' \<and> agents w' i = Some (Boat b') \<and> b_unable b'
           \<and> b_state b' = Return \<and> b_amount b' = 0
           \<and> big_count w' = big_count w + (if b_size b = Big then b_amount b else 0)
           \<and> small_count w' = small_count w + (if b_size b = Big then 0 else b_amount b)"
proof -
  from Boat_step_at_home_returns[OF b st hm] obtain w' where s: "Boat_step i w = Inr w'" by blast
  from st have ns: "b_state b \<noteq> Search" by simp
  from Boat_step_Return_home[OF s b ns hm] obtain b' where b': "agents w' i = Some (Boat b')"
    and t: "Boat_trans w b b' w'"
    by blast
  from t ns hm un have "b_unable b' \<and> b_state b' = Return \<and> b_amount b' = 0
      \<and> big_count w' = big_count w + (if b_size b = Big then b_amount b else 0)
      \<and> small_count w' = small_count w + (if b_size b = Big then 0 else b_amount b)"
    by (simp add: Boat_trans_def)
  with s b' show ?thesis by blast
qed

lemma run_unable_stays_docked:
  assumes "run n w = Inr w'" and "agents w i = Some (Boat b)" and "b_unable b"
    and "b_state b = Return"
  shows "\<exists>b'. agents w' i = Some (Boat b') \<and> b_unable b' \<and> b_state b' = Return"
proof -
  from run_world_evolves[OF assms(1)] have "rel_option evolves (agents w i) (agents w' i)"
    by (simp add: world_evolves_def)
  with assms(2) obtain a' where a': "agents w' i = Some a'" and "evolves (Boat b) a'"
    by (cases "agents w' i") auto
  then obtain b' where "a' = Boat b'" and "boat_evolves b b'" by (cases a') auto
  with a' assms(3,4) show ?thesis by (auto simp: boat_evolves_def)
qed

lemma Boat_step_unable_only_when_deep:
  assumes "Boat_step i w = Inr w'" and "agents w i = Some (Boat b)" and "\<not> b_unable b"
    and "agents w' i = Some (Boat b')" and "b_unable b'"
  shows "b_state b = Search \<and> b_size b = Small \<and> 26 \<le> snd (b_pos b)"
proof -
  from Boat_step_effect[OF assms(1)] assms(2,4) have t: "Boat_trans w b b' w'" by auto
  with assms(3,5) have "b_state b = Search \<and> \<not> eligible b"
    by (auto simp: Boat_trans_def split: if_splits)
  then show ?thesis by (cases "b_size b") (auto simp: eligible_def)
qed

text \<open>
  C8. Once the \<open>unable\<close> flag of a Boat is set, its state never returns to Search for the
  rest of the run. The flag is set by the step of a Small boat found in Search in a row
  of 26 or more, which also puts the boat in Return, and by no other step. From then
  on, after any number of ticks, the boat is unable and in Return; and its step at its
  home port banks the held catch into the World's aggregate for its size, sets the
  held catch to 0 and leaves it in Return.
\<close>

theorem unable_boat_never_searches_again:
  "(\<forall>i w b. agents w i = Some (Boat b) \<and> b_state b = Search \<and> b_size b = Small
        \<and> 26 \<le> snd (b_pos b) \<longrightarrow>
      (\<exists>w' b'. Boat_step i w = Inr w' \<and> agents w' i = Some (Boat b') \<and> b_unable b'
         \<and> b_state b' = Return))
   \<and> (\<forall>i w w' b b'. Boat_step i w = Inr w' \<and> agents w i = Some (Boat b) \<and> \<not> b_unable b
        \<and> agents w' i = Some (Boat b') \<and> b_unable b' \<longrightarrow>
      b_state b = Search \<and> b_size b = Small \<and> 26 \<le> snd (b_pos b))
   \<and> (\<forall>n i w w' b. run n w = Inr w' \<and> agents w i = Some (Boat b) \<and> b_unable b
        \<and> b_state b = Return \<longrightarrow>
      (\<exists>b'. agents w' i = Some (Boat b') \<and> b_unable b' \<and> b_state b' = Return))
   \<and> (\<forall>i w b. agents w i = Some (Boat b) \<and> b_state b = Return \<and> b_unable b \<and> at_home w b \<longrightarrow>
      (\<exists>w' b'. Boat_step i w = Inr w' \<and> agents w' i = Some (Boat b') \<and> b_unable b'
         \<and> b_state b' = Return \<and> b_amount b' = 0
         \<and> big_count w' = big_count w + (if b_size b = Big then b_amount b else 0)
         \<and> small_count w' = small_count w + (if b_size b = Big then 0 else b_amount b)))"
proof (intro conjI allI impI)
  fix i and w :: world and b
  assume "agents w i = Some (Boat b) \<and> b_state b = Search \<and> b_size b = Small \<and> 26 \<le> snd (b_pos b)"
  then show "\<exists>w' b'. Boat_step i w = Inr w' \<and> agents w' i = Some (Boat b') \<and> b_unable b'
         \<and> b_state b' = Return"
    using Boat_step_sets_unable by blast
next
  fix i w w' b b'
  assume a: "Boat_step i w = Inr w' \<and> agents w i = Some (Boat b) \<and> \<not> b_unable b
        \<and> agents w' i = Some (Boat b') \<and> b_unable b'"
  then have "b_state b = Search \<and> b_size b = Small \<and> 26 \<le> snd (b_pos b)"
    using Boat_step_unable_only_when_deep by blast
  then show "b_state b = Search" "b_size b = Small" "26 \<le> snd (b_pos b)" by simp_all
next
  fix n i w w' b
  assume "run n w = Inr w' \<and> agents w i = Some (Boat b) \<and> b_unable b \<and> b_state b = Return"
  then show "\<exists>b'. agents w' i = Some (Boat b') \<and> b_unable b' \<and> b_state b' = Return"
    using run_unable_stays_docked by blast
next
  fix i and w :: world and b
  assume "agents w i = Some (Boat b) \<and> b_state b = Return \<and> b_unable b \<and> at_home w b"
  then show "\<exists>w' b'. Boat_step i w = Inr w' \<and> agents w' i = Some (Boat b') \<and> b_unable b'
         \<and> b_state b' = Return \<and> b_amount b' = 0
         \<and> big_count w' = big_count w + (if b_size b = Big then b_amount b else 0)
         \<and> small_count w' = small_count w + (if b_size b = Big then 0 else b_amount b)"
    using Boat_step_docked by blast
qed

lemma deep_world_agents:
  "agents deep_world = [1 \<mapsto> Home (Home_init (0, 0) ''big''), 2 \<mapsto> Boat (Boat_init (0, 26) 1)]"
  by (simp add: deep_world_def small_world_defs eval_nat_numeral)

lemma docked_world_agents:
  "agents docked_world =
     [1 \<mapsto> Home (Home_init (0, 0) ''big''), 2 \<mapsto> Ocean (0, 0), 3 \<mapsto> Ocean (0, 1),
      4 \<mapsto> Ocean (1, 0), 5 \<mapsto> Ocean (1, 1),
      6 \<mapsto> Boat ((Boat_init (0, 0) 1)\<lparr>b_amount := 2, b_state := Return, b_unable := True\<rparr>)]"
  by (simp add: docked_world_def small_world_defs eval_nat_numeral)

lemma docked_world_run2:
  "boat_at 6 (run 2 docked_world) =
     Some \<lparr>b_home = 1, b_pos = (0, 0), b_size = Small, b_state = Return, b_moore = True,
           b_amount = 0, b_turn = 2, b_unable = True\<rparr>"
  by code_simp

lemma deep_world_step:
  "boat_at 2 (Boat_step 2 deep_world) =
     Some \<lparr>b_home = 1, b_pos = (0, 26), b_size = Small, b_state = Return, b_moore = True,
           b_amount = 0, b_turn = 1, b_unable = True\<rparr>"
  by code_simp

lemma docked_world_step:
  "boat_at 6 (Boat_step 6 docked_world) =
     Some \<lparr>b_home = 1, b_pos = (0, 0), b_size = Small, b_state = Return, b_moore = True,
           b_amount = 0, b_turn = 1, b_unable = True\<rparr>
   \<and> small_count (the_world (Boat_step 6 docked_world)) = small_count docked_world + 2
   \<and> big_count (the_world (Boat_step 6 docked_world)) = big_count docked_world"
  by code_simp

lemma boat_at_the_world:
  "boat_at i r = Some b \<Longrightarrow> r = Inr (the_world r) \<and> agents (the_world r) i = Some (Boat b)"
  by (auto simp: boat_at_def the_world_def split: sum.splits option.splits agent.splits)

text \<open>
  The hypotheses of C8 at concrete inputs: the step of the Small boat in row 26, and the
  step and a run of two ticks of the unable boat that lies at its port with 2 lobsters.
\<close>

theorem unable_boat_never_searches_again_witness:
  "agents deep_world 2 = Some (Boat (Boat_init (0, 26) 1))
   \<and> b_state (Boat_init (0, 26) 1) = Search \<and> b_size (Boat_init (0, 26) 1) = Small
   \<and> \<not> b_unable (Boat_init (0, 26) 1) \<and> 26 \<le> snd (b_pos (Boat_init (0, 26) 1))
   \<and> (\<exists>w' b'. Boat_step 2 deep_world = Inr w' \<and> agents w' 2 = Some (Boat b') \<and> b_unable b'
         \<and> b_state b' = Return)
   \<and> agents docked_world 6
       = Some (Boat ((Boat_init (0, 0) 1)\<lparr>b_amount := 2, b_state := Return, b_unable := True\<rparr>))
   \<and> at_home docked_world ((Boat_init (0, 0) 1)\<lparr>b_amount := 2, b_state := Return, b_unable := True\<rparr>)
   \<and> run 2 docked_world = Inr (the_world (run 2 docked_world))
   \<and> (\<exists>b'. agents (the_world (run 2 docked_world)) 6 = Some (Boat b') \<and> b_unable b'
         \<and> b_state b' = Return)
   \<and> (\<exists>w' b'. Boat_step 6 docked_world = Inr w' \<and> agents w' 6 = Some (Boat b') \<and> b_unable b'
         \<and> b_state b' = Return \<and> b_amount b' = 0
         \<and> big_count w' = big_count docked_world
         \<and> small_count w' = small_count docked_world + 2)"
proof -
  let ?b = "Boat_init (0, 26) 1"
  let ?d = "(Boat_init (0, 0) 1)\<lparr>b_amount := 2, b_state := Return, b_unable := True\<rparr>"
  note claim = unable_boat_never_searches_again
  have a1: "agents deep_world 2 = Some (Boat ?b)" by (simp add: deep_world_agents)
  have f1: "b_state ?b = Search \<and> b_size ?b = Small \<and> \<not> b_unable ?b \<and> 26 \<le> snd (b_pos ?b)"
    by (simp add: Boat_init_def)
  from claim a1 f1 have c1: "\<exists>w' b'. Boat_step 2 deep_world = Inr w' \<and> agents w' 2 = Some (Boat b')
      \<and> b_unable b' \<and> b_state b' = Return"
    by blast
  then obtain w' b' where s: "Boat_step 2 deep_world = Inr w'" and b': "agents w' 2 = Some (Boat b')"
    and u: "b_unable b'"
    by blast
  from claim s a1 f1 b' u have "b_state ?b = Search \<and> b_size ?b = Small \<and> 26 \<le> snd (b_pos ?b)"
    by blast
  have a2: "agents docked_world 6 = Some (Boat ?d)" by (simp add: docked_world_agents)
  have h2: "at_home docked_world ?d"
    by (simp add: at_home_def docked_world_agents Boat_init_def Home_init_def)
  have f2: "b_state ?d = Return \<and> b_unable ?d \<and> b_size ?d = Small \<and> b_amount ?d = 2"
    by (simp add: Boat_init_def)
  from boat_at_the_world[OF docked_world_run2]
  have r2: "run 2 docked_world = Inr (the_world (run 2 docked_world))" by simp
  from claim r2 a2 f2 have c3: "\<exists>b'. agents (the_world (run 2 docked_world)) 6 = Some (Boat b')
      \<and> b_unable b' \<and> b_state b' = Return"
    by blast
  from claim a2 f2 h2 have "\<exists>w' b'. Boat_step 6 docked_world = Inr w' \<and> agents w' 6 = Some (Boat b')
      \<and> b_unable b' \<and> b_state b' = Return \<and> b_amount b' = 0
      \<and> big_count w' = big_count docked_world + (if b_size ?d = Big then b_amount ?d else 0)
      \<and> small_count w' = small_count docked_world + (if b_size ?d = Big then 0 else b_amount ?d)"
    by blast
  with f2 have c4: "\<exists>w' b'. Boat_step 6 docked_world = Inr w' \<and> agents w' 6 = Some (Boat b')
      \<and> b_unable b' \<and> b_state b' = Return \<and> b_amount b' = 0
      \<and> big_count w' = big_count docked_world \<and> small_count w' = small_count docked_world + 2"
    by simp
  from a1 f1 c1 a2 h2 r2 c3 c4 show ?thesis by blast
qed

section \<open>Moving past the top row (C9)\<close>

lemma Boat_step_smart_move_raises:
  assumes b: "agents w i = Some (Boat b)" and st: "b_state b = Search" and sz: "b_size b = Big"
    and top: "snd (b_pos b) = grid_height w - 1"
    and lim: "snd (b_pos b) < 4 + (b_turn b + 1) div 5"
  shows "Boat_step i w = Inl OutOfBounds"
proof -
  let ?w1 = "w\<lparr>agents := (agents w)(i \<mapsto> Boat (b\<lparr>b_turn := b_turn b + 1\<rparr>))\<rparr>"
  have "out_of_bounds ?w1 (fst (b_pos b), snd (b_pos b) + 1)"
    using top by (simp add: out_of_bounds_def grid_height_def)
  then have "smart_move i ?w1 = Inl OutOfBounds"
    by (simp add: smart_move_def move_agent_def)
  with b st sz lim show ?thesis by (simp add: Boat_step_def Let_def)
qed

lemma agent_step_raises_World_step:
  assumes "schedule w = pre @ i # post" and "for_each agent_step pre w = Inr v"
    and "agent_step i v = Inl e"
  shows "World_step w = Inl e"
proof -
  have "for_each f (xs @ ys) u = (case for_each f xs u of Inl e \<Rightarrow> Inl e | Inr u' \<Rightarrow> for_each f ys u')"
    for f :: "nat \<Rightarrow> world \<Rightarrow> error + world" and xs ys u
    by (induction xs arbitrary: u) (auto split: sum.splits)
  with assms have "for_each agent_step (schedule w) w = Inl e" by simp
  then show ?thesis by (simp add: World_step_def schedule_step_def)
qed

text \<open>
  C9. \<^verbatim>\<open>Boat.step\<close> is not total in the Search phase. \<^verbatim>\<open>smart_move\<close> checks no bound:
  for a Big boat in Search in the top row of the grid whose depth limit \<open>4 + turn // 5\<close>
  (with the turn counter already raised by the step) is above that row, the step asks
  the grid to move the boat one row beyond the top row, and the out-of-bounds error
  of the non-toroidal grid is the result of the step; nothing handles it, so it is
  the result of the tick too.
\<close>

theorem Boat_step_out_of_bounds_in_top_row:
  "(\<forall>i w b. agents w i = Some (Boat b) \<and> b_state b = Search \<and> b_size b = Big
        \<and> snd (b_pos b) = grid_height w - 1 \<and> snd (b_pos b) < 4 + (b_turn b + 1) div 5 \<longrightarrow>
      Boat_step i w = Inl OutOfBounds)
   \<and> (\<forall>w pre i post v e. schedule w = pre @ i # post \<and> for_each agent_step pre w = Inr v
        \<and> agent_step i v = Inl e \<longrightarrow>
      World_step w = Inl e)"
  using Boat_step_smart_move_raises agent_step_raises_World_step by blast

lemma big_boat_world_run4:
  "boat_at 6 (run 4 big_boat_world) =
     Some \<lparr>b_home = 1, b_pos = (1, 4), b_size = Big, b_state = Search, b_moore = True,
           b_amount = 0, b_turn = 4, b_unable = False\<rparr>
   \<and> grid_height (the_world (run 4 big_boat_world)) = 5"
  by code_simp

lemma error_of_Some: "error_of r = Some e \<Longrightarrow> r = Inl e"
  by (auto simp: error_of_def split: sum.splits)

lemma big_boat_world_run5: "run 5 big_boat_world = Inl OutOfBounds"
proof -
  have "error_of (run 5 big_boat_world) = Some OutOfBounds" by code_simp
  then show ?thesis by (rule error_of_Some)
qed

text \<open>
  The hypotheses of C9 at a concrete state that a run reaches: in a world of five rows
  a new Big boat in row 0 is in the top row after four ticks, and its step in the
  fifth tick raises the error, which ends the run.
\<close>

theorem Boat_step_out_of_bounds_in_top_row_witness:
  "agents (the_world (run 4 big_boat_world)) 6 =
     Some (Boat \<lparr>b_home = 1, b_pos = (1, 4), b_size = Big, b_state = Search, b_moore = True,
                 b_amount = 0, b_turn = 4, b_unable = False\<rparr>)
   \<and> grid_height (the_world (run 4 big_boat_world)) - 1 = 4
   \<and> (4::int) < 4 + (4 + 1) div 5
   \<and> Boat_step 6 (the_world (run 4 big_boat_world)) = Inl OutOfBounds
   \<and> run 4 big_boat_world = Inr (the_world (run 4 big_boat_world))
   \<and> run 5 big_boat_world = Inl OutOfBounds"
proof -
  let ?b = "\<lparr>b_home = 1, b_pos = (1, 4), b_size = Big, b_state = Search, b_moore = True,
             b_amount = 0, b_turn = 4, b_unable = False\<rparr>"
  let ?w = "the_world (run 4 big_boat_world)"
  from big_boat_world_run4 have bt: "boat_at 6 (run 4 big_boat_world) = Some ?b"
    and gh: "grid_height ?w = 5"
    by simp_all
  from boat_at_the_world[OF bt] have r: "run 4 big_boat_world = Inr ?w"
    and a: "agents ?w 6 = Some (Boat ?b)"
    by simp_all
  have h: "b_state ?b = Search \<and> b_size ?b = Big \<and> snd (b_pos ?b) = grid_height ?w - 1
      \<and> snd (b_pos ?b) < 4 + (b_turn ?b + 1) div 5"
    using gh by simp
  from Boat_step_out_of_bounds_in_top_row a h have "Boat_step 6 ?w = Inl OutOfBounds"
    by blast
  with a gh r big_boat_world_run5 show ?thesis by simp
qed

section \<open>The heat spot and its history (C5)\<close>











section \<open>The candidates of move\_north (C6)\<close>
















section \<open>Where the code differs (C7, C3, C1)\<close>

text \<open>
  C7: the code differs. \<^verbatim>\<open>count_lobster\<close> scans the rows \<^verbatim>\<open>range(self.height-1)\<close>, all
  rows but the top one, so a Wander lobster in the top row is not counted: in a world
  whose one lobster is in the top row (where \<^verbatim>\<open>__init__\<close> may place it, and where
  lobsters moving north end up), \<open>lobster_count\<close> is 0 after \<^verbatim>\<open>World.step\<close> while one
  Wander lobster is on the grid.
\<close>

theorem count_lobster_misses_top_row:
  "lobster_at 1 (World_step top_row_world) =
     Some \<lparr>l_pos = (1, 5), l_state = Wander, l_moore = True, l_timer = 0, l_count = 1,
           l_counts = [0, 1], l_schedule = [], l_turn = 1\<rparr>
   \<and> grid (the_world (World_step top_row_world)) (1, 5) = [1]
   \<and> height (the_world (World_step top_row_world)) = 6
   \<and> live_lobsters_on_grid (the_world (World_step top_row_world)) = 1
   \<and> lobster_count (the_world (World_step top_row_world)) = 0"
  by code_simp

text \<open>
  C3: the code differs. At the horizon \<^verbatim>\<open>World.step\<close> calls \<^verbatim>\<open>in_storage\<close> of every
  boat, which adds the held catch to \<open>big_count\<close> whatever the size of the boat and does
  not reset it. In the world with horizon 2 the Small boat holds 2 lobsters at tick 2:
  after \<^verbatim>\<open>World.step\<close> at tick 2 the running flag is false, but \<open>small_count\<close>, the
  aggregate for its size, is still 0, \<open>big_count\<close> has gone up by 2, and the boat still
  holds 2.
\<close>

theorem horizon_banking_ignores_size:
  "boat_at 6 (run 2 horizon_world) =
     Some \<lparr>b_home = 1, b_pos = (1, 1), b_size = Small, b_state = Search, b_moore = True,
           b_amount = 2, b_turn = 2, b_unable = False\<rparr>
   \<and> time (the_world (run 2 horizon_world)) = sim_length (the_world (run 2 horizon_world))
   \<and> running (the_world (run 2 horizon_world)) = False
   \<and> small_count (the_world (run 1 horizon_world)) = 0
   \<and> small_count (the_world (run 2 horizon_world)) = 0
   \<and> big_count (the_world (run 1 horizon_world)) = 0
   \<and> big_count (the_world (run 2 horizon_world)) = 2"
  by code_simp

text \<open>
  C1: the code differs. \<^verbatim>\<open>Lobster.step\<close> does not look at the state, nothing calls
  \<^verbatim>\<open>Lobster.caught\<close>, and \<^verbatim>\<open>caught\<close> would remove the lobster from its own empty
  scheduler (a KeyError), not from the World's. In the small world the boat catches the
  lobster at \<open>(1, 4)\<close> in the first tick; later in that tick the lobster, now Caught, is
  stepped and moved to \<open>(0, 5)\<close>; it is still in the World's schedule, and the second
  tick steps it again.
\<close>

theorem caught_lobster_still_moves:
  "lobster_at 4 (for_each agent_step [1, 2, 3] chase_world) =
     Some \<lparr>l_pos = (1, 4), l_state = Caught, l_moore = True, l_timer = 0, l_count = 0,
           l_counts = [0], l_schedule = [], l_turn = 0\<rparr>
   \<and> lobster_at 4 (World_step chase_world) =
     Some \<lparr>l_pos = (0, 5), l_state = Caught, l_moore = True, l_timer = 0, l_count = 1,
           l_counts = [0, 1], l_schedule = [], l_turn = 1\<rparr>
   \<and> schedule chase_world = [1, 2, 3, 4]
   \<and> schedule (the_world (World_step chase_world)) = [1, 2, 3, 4]
   \<and> lobster_at 4 (run 2 chase_world) =
     Some \<lparr>l_pos = (0, 5), l_state = Caught, l_moore = True, l_timer = 0, l_count = 2,
           l_counts = [0, 1, 2], l_schedule = [], l_turn = 2\<rparr>
   \<and> error_of (caught 4 (the_world (World_step chase_world))) = Some KeyError"
  by code_simp

section \<open>Banking at the horizon (C4)\<close>

text \<open>
  C4. For every Boat, Small or Big, holding any catch amount, \<^verbatim>\<open>in_storage\<close> adds that
  amount to the World's \<open>big_count\<close>, whatever the size of the boat, and leaves
  \<open>small_count\<close> as it was. Nothing else is written either: the object store, and with
  it the boat and its held amount, is unchanged.
\<close>

theorem in_storage_credits_big_count:
  "big_count (in_storage b w) = big_count w + b_amount b
   \<and> small_count (in_storage b w) = small_count w
   \<and> agents (in_storage b w) = agents w"
  by (simp add: in_storage_def)

end
